theory Spec2Isabelle
  imports Main "HOL-Library.Word" "HOL-Library.List_Lexorder" "HOL-Library.Multiset"
begin

section \<open>Strings\<close>

text \<open>
  A JavaScript string is a sequence of 16-bit code units. String literals of the
  source are written \<open>lit ''...''\<close>.
\<close>

type_synonym jschar = "16 word"
type_synonym jsstring = "jschar list"

definition lit :: "string \<Rightarrow> jsstring" where
  "lit s = map (\<lambda>c. of_char c) s"

text \<open>
  \<open>String.prototype.indexOf\<close> and \<open>lastIndexOf\<close>, for a search string of one code
  unit (the source searches for one brace): the position of the first (last) occurrence,
  \<open>-1\<close> when there is none.
\<close>

fun indexOf :: "jsstring \<Rightarrow> jschar \<Rightarrow> int" where
  "indexOf [] c = - 1"
| "indexOf (x # xs) c =
     (if x = c then 0
      else (let r = indexOf xs c in if r = - 1 then - 1 else r + 1))"

fun lastIndexOf :: "jsstring \<Rightarrow> jschar \<Rightarrow> int" where
  "lastIndexOf [] c = - 1"
| "lastIndexOf (x # xs) c =
     (let r = lastIndexOf xs c in
      if r \<noteq> - 1 then r + 1 else if x = c then 0 else - 1)"

text \<open>
  \<open>String.prototype.slice(start, end)\<close>: a negative index counts from the end, and
  both are clamped to the string.
\<close>

definition slice :: "jsstring \<Rightarrow> int \<Rightarrow> int \<Rightarrow> jsstring" where
  "slice s start fin =
     (let len = int (length s);
          from = (if start < 0 then max (len + start) 0 else min start len);
          to = (if fin < 0 then max (len + fin) 0 else min fin len)
      in take (nat (to - from)) (drop (nat from) s))"

text \<open>The white space and line terminators that \<open>String.prototype.trim\<close> removes.\<close>

definition is_white_space :: "jschar \<Rightarrow> bool" where
  "is_white_space c \<longleftrightarrow>
     c \<in> {0x0009, 0x000A, 0x000B, 0x000C, 0x000D, 0x0020, 0x00A0, 0x1680,
          0x2000, 0x2001, 0x2002, 0x2003, 0x2004, 0x2005, 0x2006, 0x2007,
          0x2008, 0x2009, 0x200A, 0x2028, 0x2029, 0x202F, 0x205F, 0x3000, 0xFEFF}"

definition trim :: "jsstring \<Rightarrow> jsstring" where
  "trim s = rev (dropWhile is_white_space (rev (dropWhile is_white_space s)))"

text \<open>\<open>Array.prototype.join\<close> on an array of strings.\<close>

fun join :: "jsstring \<Rightarrow> jsstring list \<Rightarrow> jsstring" where
  "join sep [] = []"
| "join sep [x] = x"
| "join sep (x # y # ys) = x @ sep @ join sep (y # ys)"

section \<open>Payload extraction\<close>

definition extractJsonPayload :: "jsstring \<Rightarrow> jsstring" where
  "extractJsonPayload text =
     (let firstBrace = indexOf text (of_char CHR ''{'');
          lastBrace = lastIndexOf text (of_char CHR ''}'')
      in if firstBrace = - 1 \<or> lastBrace = - 1 \<or> lastBrace \<le> firstBrace
         then text
         else slice text firstBrace (lastBrace + 1))"

text \<open>
  Positions, for stating what extraction returns: \<open>first_at s c i\<close> says that the first
  occurrence of \<open>c\<close> in \<open>s\<close> is at index \<open>i\<close>, \<open>last_at s c j\<close> that the last one
  is at index \<open>j\<close>.
\<close>

definition first_at :: "jsstring \<Rightarrow> jschar \<Rightarrow> nat \<Rightarrow> bool" where
  "first_at s c i \<longleftrightarrow> i < length s \<and> s ! i = c \<and> c \<notin> set (take i s)"

definition last_at :: "jsstring \<Rightarrow> jschar \<Rightarrow> nat \<Rightarrow> bool" where
  "last_at s c j \<longleftrightarrow> j < length s \<and> s ! j = c \<and> c \<notin> set (drop (Suc j) s)"

section \<open>Parsed JSON documents\<close>

text \<open>
  The value \<open>JSON.parse\<close> returns. An object is the list of its own properties; a
  property is read with \<open>map_of\<close>. A number is represented by the string that
  \<open>Number.prototype.toString\<close> gives it: the source observes a number only through
  \<open>typeof\<close>, its truthiness and its conversion to a string, and the two zeros share the
  rendering \<open>0\<close> and are both falsy. \<open>undefined\<close> is \<open>None\<close> of \<open>json option\<close>.
\<close>

datatype json =
    JNull
  | JBool bool
  | JNum jsstring
  | JStr jsstring
  | JArr "json list"
  | JObj "(jsstring \<times> json) list"

datatype error = SyntaxError jsstring | TypeError jsstring

fun message :: "error \<Rightarrow> jsstring" where
  "message (SyntaxError m) = m"
| "message (TypeError m) = m"

text \<open>
  Optional member access \<open>v?.k\<close> on a parsed value, for the property names the source
  reads (\<open>projects\<close>, \<open>name\<close>, \<open>path\<close>, \<open>frameworks\<close>, \<open>topLevelPackages\<close>,
  \<open>id\<close>, \<open>resolvedVersion\<close>, \<open>latestVersion\<close>): none of them is defined on the
  prototype of an object, array, string, number or boolean, so only an object's own
  property gives a value.
\<close>

fun member :: "json \<Rightarrow> jsstring \<Rightarrow> json option" where
  "member (JObj kvs) k = map_of kvs k"
| "member _ k = None"

text \<open>Nullish coalescing \<open>a ?? b\<close>.\<close>

fun coalesce :: "json option \<Rightarrow> json option \<Rightarrow> json option" where
  "coalesce None b = b"
| "coalesce (Some JNull) b = b"
| "coalesce (Some v) b = Some v"

fun typeof :: "json option \<Rightarrow> jsstring" where
  "typeof None = lit ''undefined''"
| "typeof (Some JNull) = lit ''object''"
| "typeof (Some (JBool b)) = lit ''boolean''"
| "typeof (Some (JNum n)) = lit ''number''"
| "typeof (Some (JStr s)) = lit ''string''"
| "typeof (Some (JArr xs)) = lit ''object''"
| "typeof (Some (JObj kvs)) = lit ''object''"

fun truthy :: "json option \<Rightarrow> bool" where
  "truthy None = False"
| "truthy (Some JNull) = False"
| "truthy (Some (JBool b)) = b"
| "truthy (Some (JNum n)) = (n \<noteq> lit ''0'')"
| "truthy (Some (JStr s)) = (s \<noteq> [])"
| "truthy (Some (JArr xs)) = True"
| "truthy (Some (JObj kvs)) = True"

text \<open>\<open>Array.isArray(v) ? v : []\<close>.\<close>

fun array_or_empty :: "json option \<Rightarrow> json list" where
  "array_or_empty (Some (JArr xs)) = xs"
| "array_or_empty _ = []"

text \<open>
  The conversion to a string that a template literal applies. An array is joined with
  commas, a \<open>null\<close> element giving the empty string. An object without an own
  \<open>toString\<close> property is \<open>[object Object]\<close>; with one (never callable in a parsed
  document) the conversion finds no primitive value and throws a TypeError.
\<close>

definition cannot_convert :: error where
  "cannot_convert = TypeError (lit ''Cannot convert object to primitive value'')"

fun to_string :: "json \<Rightarrow> error + jsstring"
  and elements_to_strings :: "json list \<Rightarrow> error + jsstring list" where
  "to_string JNull = Inr (lit ''null'')"
| "to_string (JBool b) = Inr (if b then lit ''true'' else lit ''false'')"
| "to_string (JNum n) = Inr n"
| "to_string (JStr s) = Inr s"
| "to_string (JArr xs) =
     (case elements_to_strings xs of
        Inl e \<Rightarrow> Inl e
      | Inr ss \<Rightarrow> Inr (join (lit '','') ss))"
| "to_string (JObj kvs) =
     (if map_of kvs (lit ''toString'') = None then Inr (lit ''[object Object]'')
      else Inl cannot_convert)"
| "elements_to_strings [] = Inr []"
| "elements_to_strings (x # xs) =
     (case (if x = JNull then Inr [] else to_string x) of
        Inl e \<Rightarrow> Inl e
      | Inr s \<Rightarrow>
          (case elements_to_strings xs of
             Inl e \<Rightarrow> Inl e
           | Inr ss \<Rightarrow> Inr (s # ss)))"

fun to_string_opt :: "json option \<Rightarrow> error + jsstring" where
  "to_string_opt None = Inr (lit ''undefined'')"
| "to_string_opt (Some v) = to_string v"

section \<open>Normalization\<close>

text \<open>
  A \<open>Set<string>\<close> is the list of its members in insertion order, without repetition;
  its \<open>size\<close> is the length of the list.
\<close>

definition set_add :: "jsstring \<Rightarrow> jsstring list \<Rightarrow> jsstring list" where
  "set_add x xs = (if x \<in> set xs then xs else xs @ [x])"

record OutdatedPackage =
  id' :: jsstring
  resolvedVersions :: "jsstring list"
  latestVersions :: "jsstring list"
  contexts :: "jsstring list"

text \<open>
  The \<open>Map<string, OutdatedPackage>\<close> of the source is the list of its entries in
  insertion order. \<open>store\<close> writes back an entry that the source mutates through the
  reference the map holds.
\<close>

type_synonym packages = "(jsstring \<times> OutdatedPackage) list"

definition store :: "packages \<Rightarrow> jsstring \<Rightarrow> OutdatedPackage \<Rightarrow> packages" where
  "store m k v = map (\<lambda>(k', v'). if k' = k then (k', v) else (k', v')) m"

text \<open>A \<open>for ... of\<close> loop over an array whose body updates a state and may throw.\<close>

fun for_each :: "('s \<Rightarrow> 'a \<Rightarrow> error + 's) \<Rightarrow> 's \<Rightarrow> 'a list \<Rightarrow> error + 's" where
  "for_each body s [] = Inr s"
| "for_each body s (x # xs) =
     (case body s x of Inl e \<Rightarrow> Inl e | Inr s' \<Rightarrow> for_each body s' xs)"

text \<open>The template literal \<open>`${projectName} (${frameworkName})`\<close>.\<close>

definition context_string :: "json option \<Rightarrow> json option \<Rightarrow> error + jsstring" where
  "context_string projectName frameworkName =
     (case to_string_opt projectName of
        Inl e \<Rightarrow> Inl e
      | Inr p \<Rightarrow>
          (case to_string_opt frameworkName of
             Inl e \<Rightarrow> Inl e
           | Inr f \<Rightarrow> Inr (p @ lit '' ('' @ f @ lit '')'')))"

text \<open>\<open>typeof v === "string" ? v : undefined\<close>.\<close>

definition string_or_undefined :: "json option \<Rightarrow> json option" where
  "string_or_undefined v = (if typeof v = lit ''string'' then v else None)"

fun the_string :: "json option \<Rightarrow> jsstring" where
  "the_string (Some (JStr s)) = s"
| "the_string _ = []"

text \<open>The body of the innermost loop (source lines 109 to 135).\<close>

definition package_step ::
  "json option \<Rightarrow> json option \<Rightarrow> packages \<Rightarrow> json \<Rightarrow> error + packages" where
  "package_step projectName frameworkName pkgs pkg =
     (let ident = coalesce (member pkg (lit ''id'')) (member pkg (lit ''name'')) in
      if \<not> truthy ident \<or> typeof ident \<noteq> lit ''string'' then Inr pkgs
      else
        let resolved = string_or_undefined (member pkg (lit ''resolvedVersion''));
            latest = string_or_undefined (member pkg (lit ''latestVersion''))
        in case context_string projectName frameworkName of
             Inl e \<Rightarrow> Inl e
           | Inr context \<Rightarrow>
               let k = the_string ident;
                   (entry, pkgs1) =
                     (case map_of pkgs k of
                        None \<Rightarrow>
                          (let fresh = \<lparr>id' = k, resolvedVersions = [],
                                        latestVersions = [], contexts = []\<rparr>
                           in (fresh, pkgs @ [(k, fresh)]))
                      | Some e \<Rightarrow> (e, pkgs));
                   entry1 = (if truthy resolved
                             then entry\<lparr>resolvedVersions :=
                                    set_add (the_string resolved) (resolvedVersions entry)\<rparr>
                             else entry);
                   entry2 = (if truthy latest
                             then entry1\<lparr>latestVersions :=
                                    set_add (the_string latest) (latestVersions entry1)\<rparr>
                             else entry1);
                   entry3 = entry2\<lparr>contexts := set_add context (contexts entry2)\<rparr>
               in Inr (store pkgs1 k entry3))"

definition framework_step :: "json option \<Rightarrow> packages \<Rightarrow> json \<Rightarrow> error + packages" where
  "framework_step projectName pkgs framework =
     (let frameworkName = coalesce (member framework (lit ''name'')) (Some (JStr (lit ''unknown'')));
          topLevel = array_or_empty (member framework (lit ''topLevelPackages''))
      in for_each (package_step projectName frameworkName) pkgs topLevel)"

definition project_step :: "packages \<Rightarrow> json \<Rightarrow> error + packages" where
  "project_step pkgs project =
     (let projectName =
            coalesce (member project (lit ''name''))
              (coalesce (member project (lit ''path'')) (Some (JStr (lit ''unknown''))));
          frameworks = array_or_empty (member project (lit ''frameworks''))
      in for_each (framework_step projectName) pkgs frameworks)"

text \<open>
  \<open>Array.prototype.sort\<close> with a comparator. For a consistent comparator the language
  fixes the result: the sorted permutation that keeps the order of elements comparing
  equal. Insertion from the right computes it.
\<close>

fun insert_sorted :: "('a \<Rightarrow> 'a \<Rightarrow> int) \<Rightarrow> 'a \<Rightarrow> 'a list \<Rightarrow> 'a list" where
  "insert_sorted cmp x [] = [x]"
| "insert_sorted cmp x (y # ys) =
     (if cmp x y \<le> 0 then x # y # ys else y # insert_sorted cmp x ys)"

definition array_sort :: "('a \<Rightarrow> 'a \<Rightarrow> int) \<Rightarrow> 'a list \<Rightarrow> 'a list" where
  "array_sort cmp xs = foldr (insert_sorted cmp) xs []"

text \<open>
  \<open>parseOutdatedPackages\<close>. \<open>JSON.parse\<close> and \<open>String.prototype.localeCompare\<close> belong
  to the platform and are parameters: \<open>JSON_parse\<close> returns the document or the message
  of the SyntaxError it throws, \<open>localeCompare a b\<close> is negative, zero or positive.
\<close>

definition collect :: "json \<Rightarrow> error + packages" where
  "collect data =
     (let projects = array_or_empty (member data (lit ''projects''))
      in for_each project_step [] projects)"

definition parseOutdatedPackages ::
  "(jsstring \<Rightarrow> jsstring + json) \<Rightarrow> (jsstring \<Rightarrow> jsstring \<Rightarrow> int) \<Rightarrow> jsstring
     \<Rightarrow> error + OutdatedPackage list" where
  "parseOutdatedPackages JSON_parse localeCompare jsonText =
     (case JSON_parse (extractJsonPayload jsonText) of
        Inl m \<Rightarrow> Inl (SyntaxError m)
      | Inr data \<Rightarrow>
          (case collect data of
             Inl e \<Rightarrow> Inl e
           | Inr pkgs \<Rightarrow>
               Inr (array_sort (\<lambda>a b. localeCompare (id' a) (id' b)) (map snd pkgs))))"

text \<open>A comparator that orders consistently: a total preorder.\<close>

definition consistent :: "('a \<Rightarrow> 'a \<Rightarrow> int) \<Rightarrow> bool" where
  "consistent cmp \<longleftrightarrow>
     (\<forall>a b. cmp a b \<le> 0 \<or> cmp b a \<le> 0) \<and>
     (\<forall>a b c. cmp a b \<le> 0 \<longrightarrow> cmp b c \<le> 0 \<longrightarrow> cmp a c \<le> 0)"

text \<open>Comparison by code units, one consistent comparator.\<close>

definition code_unit_compare :: "jsstring \<Rightarrow> jsstring \<Rightarrow> int" where
  "code_unit_compare a b = (if a < b then - 1 else if b < a then 1 else 0)"

section \<open>Presentation\<close>

record QuickPickItem =
  label :: jsstring
  description :: jsstring
  detail :: jsstring

text \<open>\<open>Array.from(set)[0]\<close>: the first member, \<open>undefined\<close> for an empty set.\<close>

fun first_member :: "jsstring list \<Rightarrow> jsstring option" where
  "first_member [] = None"
| "first_member (x # xs) = Some x"

text \<open>Truthiness and template conversion of a value that is a string or \<open>undefined\<close>.\<close>

fun string_truthy :: "jsstring option \<Rightarrow> bool" where
  "string_truthy None = False"
| "string_truthy (Some s) = (s \<noteq> [])"

fun string_text :: "jsstring option \<Rightarrow> jsstring" where
  "string_text None = lit ''undefined''"
| "string_text (Some s) = s"

text \<open>The function mapped over the candidates (source lines 219 to 231).\<close>

definition toQuickPickItem :: "OutdatedPackage \<Rightarrow> QuickPickItem" where
  "toQuickPickItem pkg =
     (let resolved = (if length (resolvedVersions pkg) = 1
                      then first_member (resolvedVersions pkg) else None);
          latest = (if length (latestVersions pkg) = 1
                    then first_member (latestVersions pkg) else None);
          description = (if string_truthy resolved \<and> string_truthy latest
                         then string_text resolved @ lit '' -> '' @ string_text latest
                         else lit ''multiple versions'')
      in \<lparr>label = id' pkg, description = description,
          detail = join (lit ''; '') (contexts pkg)\<rparr>)"

section \<open>Orchestration\<close>

text \<open>
  The command handler talks to the editor and to child processes. A run is modelled by
  the list of the effects it performs, in order; what the outside answers is a
  parameter. \<open>spawn cwd command args\<close> is what the child process does until the promise
  of \<open>runCommand\<close> or \<open>runCommandCapture\<close> resolves: the \<open>data\<close> events of its two
  streams in the order of their arrival, each with the text of its buffer, and then the
  event that resolves the promise, \<open>error\<close> with the message of the error, or \<open>close\<close>
  with the exit code (\<open>null\<close> is \<open>None\<close>).
\<close>

datatype chunk = Stdout jsstring | Stderr jsstring

datatype child_end = StartError jsstring | Close "int option"

record child =
  chunks :: "chunk list"
  ending :: child_end

record CommandResult =
  code :: int
  stdout :: jsstring
  stderr :: jsstring

datatype event =
    ShowErrorMessage jsstring
  | ShowInformationMessage jsstring
  | CreateOutputChannel jsstring
  | ShowOutput
  | AppendLine jsstring
  | Append jsstring
  | Spawn jsstring jsstring "jsstring list"
  | ShowQuickPick "QuickPickItem list"

record platform =
  workspaceFolders :: "jsstring list option"
  spawn :: "jsstring \<Rightarrow> jsstring \<Rightarrow> jsstring list \<Rightarrow> child"
  showQuickPick :: "QuickPickItem list \<Rightarrow> QuickPickItem list option"
  JSON_parse :: "jsstring \<Rightarrow> jsstring + json"
  localeCompare :: "jsstring \<Rightarrow> jsstring \<Rightarrow> int"

definition command_line :: "jsstring \<Rightarrow> jsstring list \<Rightarrow> jsstring" where
  "command_line command args = lit ''> '' @ command @ lit '' '' @ join (lit '' '') args"

text \<open>
  The two handlers that resolve the promise: \<open>error\<close> appends a line to the output
  channel and resolves with \<open>1\<close>, \<open>close\<close> resolves with \<open>code ?? 1\<close>.
\<close>

fun on_end :: "child_end \<Rightarrow> event list" where
  "on_end (StartError m) = [AppendLine (lit ''Command failed to start: '' @ m)]"
| "on_end (Close c) = []"

fun exit_code :: "child_end \<Rightarrow> int" where
  "exit_code (StartError m) = 1"
| "exit_code (Close None) = 1"
| "exit_code (Close (Some c)) = c"

text \<open>
  The two \<open>data\<close> handlers of \<open>runCommandCapture\<close>: the text is added to the capture of
  its stream, and appended to the output channel unless the option of the stream is
  \<open>false\<close>.
\<close>

record capture_options =
  echoStdout :: "bool option"
  echoStderr :: "bool option"

fun on_data :: "bool \<Rightarrow> bool \<Rightarrow> chunk \<Rightarrow> event list" where
  "on_data echoOut echoErr (Stdout t) = (if echoOut then [Append t] else [])"
| "on_data echoOut echoErr (Stderr t) = (if echoErr then [Append t] else [])"

fun stdout_text :: "chunk \<Rightarrow> jsstring" where
  "stdout_text (Stdout t) = t"
| "stdout_text (Stderr t) = []"

fun stderr_text :: "chunk \<Rightarrow> jsstring" where
  "stderr_text (Stdout t) = []"
| "stderr_text (Stderr t) = t"

definition runCommand ::
  "platform \<Rightarrow> jsstring \<Rightarrow> jsstring \<Rightarrow> jsstring list \<Rightarrow> event list \<times> int" where
  "runCommand env cwd command args =
     (let proc = spawn env cwd command args
      in ([AppendLine (command_line command args), Spawn cwd command args]
            @ concat (map (on_data True True) (chunks proc))
            @ on_end (ending proc),
          exit_code (ending proc)))"

definition runCommandCapture ::
  "platform \<Rightarrow> jsstring \<Rightarrow> jsstring \<Rightarrow> jsstring list \<Rightarrow> capture_options option
     \<Rightarrow> event list \<times> CommandResult" where
  "runCommandCapture env cwd command args options =
     (let proc = spawn env cwd command args;
          echoOut = (case options of None \<Rightarrow> True | Some opts \<Rightarrow> echoStdout opts \<noteq> Some False);
          echoErr = (case options of None \<Rightarrow> True | Some opts \<Rightarrow> echoStderr opts \<noteq> Some False)
      in ([AppendLine (command_line command args), Spawn cwd command args]
            @ concat (map (on_data echoOut echoErr) (chunks proc))
            @ on_end (ending proc),
          \<lparr>code = exit_code (ending proc),
           stdout = concat (map stdout_text (chunks proc)),
           stderr = concat (map stderr_text (chunks proc))\<rparr>))"

definition ensureDotnetOutdated :: "platform \<Rightarrow> jsstring \<Rightarrow> event list \<times> bool" where
  "ensureDotnetOutdated env cwd =
     (let (ev1, probeCode) =
            runCommand env cwd (lit ''dotnet'') [lit ''outdated'', lit ''--version'']
      in if probeCode = 0 then (ev1, True)
         else
           let (ev2, installCode) =
                 runCommand env cwd (lit ''dotnet'')
                   [lit ''tool'', lit ''install'', lit ''--global'', lit ''dotnet-outdated-tool'']
           in (ev1 @ [AppendLine (lit ''dotnet-outdated-tool not found. Installing globally...'')]
                 @ ev2,
               installCode = 0))"

text \<open>Source lines 238 to 260: what follows the answer of the picker.\<close>

definition activate_selected ::
  "platform \<Rightarrow> jsstring \<Rightarrow> QuickPickItem list option \<Rightarrow> event list" where
  "activate_selected env cwd selections =
     (case selections of
        None \<Rightarrow> [ShowInformationMessage (lit ''No packages selected for upgrade.'')]
      | Some sel \<Rightarrow>
          if length sel = 0
          then [ShowInformationMessage (lit ''No packages selected for upgrade.'')]
          else
            let (ev1, toolOk) = ensureDotnetOutdated env cwd
            in if \<not> toolOk
               then ev1 @ [ShowErrorMessage
                      (lit ''Failed to install dotnet-outdated-tool. See output for details.'')]
               else
                 let upgradeArgs = [lit ''outdated'', lit ''--upgrade'']
                       @ concat (map (\<lambda>selection. [lit ''--include'', label selection]) sel);
                     (ev2, upgradeCode) = runCommand env cwd (lit ''dotnet'') upgradeArgs
                 in if upgradeCode \<noteq> 0
                    then ev1 @ ev2 @ [ShowErrorMessage
                           (lit ''dotnet outdated --upgrade failed. See output for details.'')]
                    else ev1 @ ev2 @ [ShowInformationMessage (lit ''NuGet packages updated.'')])"

text \<open>Source lines 203 to 236 and on: what follows the choice of the payload.\<close>

definition activate_payload :: "platform \<Rightarrow> jsstring \<Rightarrow> jsstring \<Rightarrow> event list" where
  "activate_payload env cwd jsonPayload =
     (case parseOutdatedPackages (JSON_parse env) (localeCompare env) jsonPayload of
        Inl err \<Rightarrow>
          [AppendLine (lit ''Failed to parse JSON. Raw output:''),
           AppendLine jsonPayload,
           ShowErrorMessage (lit ''Failed to parse outdated package list: '' @ message err)]
      | Inr outdatedPackages \<Rightarrow>
          if length outdatedPackages = 0
          then [ShowInformationMessage (lit ''No outdated packages found.'')]
          else
            let items = map toQuickPickItem outdatedPackages;
                selections = showQuickPick env items
            in ShowQuickPick items # activate_selected env cwd selections)"

text \<open>\<open>vscode.workspace.workspaceFolders?.[0]\<close>, as the path of the folder.\<close>

fun first_folder :: "jsstring list option \<Rightarrow> jsstring option" where
  "first_folder None = None"
| "first_folder (Some []) = None"
| "first_folder (Some (f # fs)) = Some f"

definition activate :: "platform \<Rightarrow> event list" where
  "activate env =
     (case first_folder (workspaceFolders env) of
        None \<Rightarrow>
          [ShowErrorMessage (lit ''Open a workspace folder to run NuGet Package Upgrade.'')]
      | Some cwd \<Rightarrow>
          let ev0 = [CreateOutputChannel (lit ''NuGet Package Upgrade''), ShowOutput,
                     ShowInformationMessage (lit ''Running NuGet package checks...'')];
              (ev1, listCode) = runCommand env cwd (lit ''dotnet'') [lit ''list'', lit ''package''];
              ev = ev0 @ ev1
          in if listCode \<noteq> 0
             then ev @ [ShowErrorMessage
                    (lit ''dotnet list package failed. See output for details.'')]
             else
               let (ev2, outdatedResult) =
                     runCommandCapture env cwd (lit ''dotnet'')
                       [lit ''list'', lit ''package'', lit ''--outdated'', lit ''--format'',
                        lit ''json'']
                       (Some \<lparr>echoStdout = Some False, echoStderr = Some False\<rparr>);
                   ev = ev @ ev2
               in if code outdatedResult \<noteq> 0
                  then ev @ [ShowErrorMessage
                         (lit ''dotnet list package --outdated --format json failed. Update your .NET SDK or see output for details.'')]
                  else
                    let jsonPayload =
                          (if length (trim (stdout outdatedResult)) \<noteq> 0
                           then stdout outdatedResult else stderr outdatedResult)
                    in if trim jsonPayload = []
                       then ev @ [ShowErrorMessage
                              (lit ''No JSON output received from dotnet list package --outdated.'')]
                       else ev @ activate_payload env cwd jsonPayload)"

section \<open>Vocabulary of the properties\<close>

text \<open>The two braces that extraction searches for.\<close>

abbreviation (input) open_brace :: jschar where
  "open_brace \<equiv> of_char CHR ''{''"

abbreviation (input) close_brace :: jschar where
  "close_brace \<equiv> of_char CHR ''}''"

text \<open>
  A package entry is a package object together with the project name and the framework
  name it is met under. \<open>package_entries\<close> lists the entries of a document in the order
  in which the nested iteration of the source visits them.
\<close>

type_synonym entry = "json option \<times> json option \<times> json"

definition project_name :: "json \<Rightarrow> json option" where
  "project_name project =
     coalesce (member project (lit ''name''))
       (coalesce (member project (lit ''path'')) (Some (JStr (lit ''unknown''))))"

definition framework_name :: "json \<Rightarrow> json option" where
  "framework_name framework =
     coalesce (member framework (lit ''name'')) (Some (JStr (lit ''unknown'')))"

definition package_entries :: "json \<Rightarrow> entry list" where
  "package_entries data =
     concat (map (\<lambda>project.
       concat (map (\<lambda>framework.
         map (\<lambda>pkg. (project_name project, framework_name framework, pkg))
           (array_or_empty (member framework (lit ''topLevelPackages''))))
         (array_or_empty (member project (lit ''frameworks'')))))
       (array_or_empty (member data (lit ''projects''))))"

text \<open>
  What the loop body reads from a package: its id is usable when the \<open>id\<close> property
  (the \<open>name\<close> property when \<open>id\<close> is missing or \<open>null\<close>) is a non-empty string; a
  version counts when it is a non-empty string.
\<close>

definition nonempty_string :: "json option \<Rightarrow> jsstring option" where
  "nonempty_string v = (case v of Some (JStr s) \<Rightarrow> if s = [] then None else Some s | _ \<Rightarrow> None)"

definition usable_id :: "json \<Rightarrow> jsstring option" where
  "usable_id pkg = nonempty_string (coalesce (member pkg (lit ''id'')) (member pkg (lit ''name'')))"

definition resolved_of :: "json \<Rightarrow> jsstring option" where
  "resolved_of pkg = nonempty_string (member pkg (lit ''resolvedVersion''))"

definition latest_of :: "json \<Rightarrow> jsstring option" where
  "latest_of pkg = nonempty_string (member pkg (lit ''latestVersion''))"

text \<open>The effect of one loop body on the map, written as one update.\<close>

definition fresh :: "jsstring \<Rightarrow> OutdatedPackage" where
  "fresh k = \<lparr>id' = k, resolvedVersions = [], latestVersions = [], contexts = []\<rparr>"

definition add_opt :: "jsstring option \<Rightarrow> jsstring list \<Rightarrow> jsstring list" where
  "add_opt v xs = (case v of None \<Rightarrow> xs | Some x \<Rightarrow> set_add x xs)"

definition merged ::
  "OutdatedPackage \<Rightarrow> jsstring option \<Rightarrow> jsstring option \<Rightarrow> jsstring \<Rightarrow> OutdatedPackage" where
  "merged e r l c =
     e\<lparr>resolvedVersions := add_opt r (resolvedVersions e),
       latestVersions := add_opt l (latestVersions e),
       contexts := set_add c (contexts e)\<rparr>"

definition upsert ::
  "packages \<Rightarrow> jsstring \<Rightarrow> jsstring option \<Rightarrow> jsstring option \<Rightarrow> jsstring \<Rightarrow> packages" where
  "upsert pkgs k r l c =
     (case map_of pkgs k of
        None \<Rightarrow> pkgs @ [(k, merged (fresh k) r l c)]
      | Some e \<Rightarrow> store pkgs k (merged e r l c))"

definition entry_step :: "packages \<Rightarrow> entry \<Rightarrow> error + packages" where
  "entry_step pkgs e = (case e of (pn, fn, pkg) \<Rightarrow> package_step pn fn pkgs pkg)"

text \<open>
  What a list of entries says about a package id: that it occurs, and the versions and
  contexts it occurs with.
\<close>

definition ids :: "entry list \<Rightarrow> jsstring set" where
  "ids es = {k. \<exists>(pn, fn, p) \<in> set es. usable_id p = Some k}"

definition resolved_for :: "entry list \<Rightarrow> jsstring \<Rightarrow> jsstring set" where
  "resolved_for es k = {r. \<exists>(pn, fn, p) \<in> set es. usable_id p = Some k \<and> resolved_of p = Some r}"

definition latest_for :: "entry list \<Rightarrow> jsstring \<Rightarrow> jsstring set" where
  "latest_for es k = {l. \<exists>(pn, fn, p) \<in> set es. usable_id p = Some k \<and> latest_of p = Some l}"

definition contexts_for :: "entry list \<Rightarrow> jsstring \<Rightarrow> jsstring set" where
  "contexts_for es k =
     {c. \<exists>(pn, fn, p) \<in> set es. usable_id p = Some k \<and> context_string pn fn = Inr c}"

text \<open>
  \<open>collected es pkgs\<close>: the map \<open>pkgs\<close> holds one candidate for each id of the
  entries \<open>es\<close>, and each candidate holds what \<open>es\<close> says about its id.
\<close>

definition summarises :: "entry list \<Rightarrow> jsstring \<Rightarrow> OutdatedPackage \<Rightarrow> bool" where
  "summarises es k v \<longleftrightarrow>
     id' v = k \<and>
     set (resolvedVersions v) = resolved_for es k \<and> distinct (resolvedVersions v) \<and>
     set (latestVersions v) = latest_for es k \<and> distinct (latestVersions v) \<and>
     set (contexts v) = contexts_for es k \<and> distinct (contexts v)"

definition collected :: "entry list \<Rightarrow> packages \<Rightarrow> bool" where
  "collected es pkgs \<longleftrightarrow>
     distinct (map fst pkgs) \<and> fst ` set pkgs = ids es \<and>
     (\<forall>k v. map_of pkgs k = Some v \<longrightarrow> summarises es k v)"

text \<open>An entry on which the loop body throws: a usable id, and no context string.\<close>

definition throwing :: "entry \<Rightarrow> bool" where
  "throwing e = (case e of (pn, fn, p) \<Rightarrow> usable_id p \<noteq> None \<and> isl (context_string pn fn))"

text \<open>A candidate up to the order of its sets, and the order of the returned sequence.\<close>

definition summary :: "OutdatedPackage \<Rightarrow> jsstring \<times> jsstring set \<times> jsstring set \<times> jsstring set" where
  "summary c = (id' c, set (resolvedVersions c), set (latestVersions c), set (contexts c))"

definition by_id :: "(jsstring \<Rightarrow> jsstring \<Rightarrow> int) \<Rightarrow> OutdatedPackage \<Rightarrow> OutdatedPackage \<Rightarrow> bool" where
  "by_id cmp a b \<longleftrightarrow> cmp (id' a) (id' b) \<le> 0"

section \<open>A sample document\<close>

text \<open>
  One project \<open>App\<close> with two frameworks. \<open>Newtonsoft.Json\<close> is referenced under both,
  with different resolved versions; \<open>Serilog\<close> under the second only, listed first there.
\<close>

definition sample_package :: "string \<Rightarrow> string \<Rightarrow> string \<Rightarrow> json" where
  "sample_package name resolved latest =
     JObj [(lit ''id'', JStr (lit name)),
           (lit ''resolvedVersion'', JStr (lit resolved)),
           (lit ''latestVersion'', JStr (lit latest))]"

definition sample_framework :: "string \<Rightarrow> json list \<Rightarrow> json" where
  "sample_framework name pkgs =
     JObj [(lit ''name'', JStr (lit name)), (lit ''topLevelPackages'', JArr pkgs)]"

definition sample_document :: json where
  "sample_document =
     JObj [(lit ''projects'', JArr
       [JObj [(lit ''name'', JStr (lit ''App'')),
              (lit ''frameworks'', JArr
                 [sample_framework ''net8.0''
                    [sample_package ''Newtonsoft.Json'' ''13.0.1'' ''13.0.3''],
                  sample_framework ''net6.0''
                    [sample_package ''Serilog'' ''3.0.0'' ''3.1.1'',
                     sample_package ''Newtonsoft.Json'' ''13.0.5'' ''13.0.3'']])]])]"

text \<open>The same entries with the two frameworks in the other order.\<close>

definition sample_document_swapped :: json where
  "sample_document_swapped =
     JObj [(lit ''projects'', JArr
       [JObj [(lit ''name'', JStr (lit ''App'')),
              (lit ''frameworks'', JArr
                 [sample_framework ''net6.0''
                    [sample_package ''Serilog'' ''3.0.0'' ''3.1.1'',
                     sample_package ''Newtonsoft.Json'' ''13.0.5'' ''13.0.3''],
                  sample_framework ''net8.0''
                    [sample_package ''Newtonsoft.Json'' ''13.0.1'' ''13.0.3'']])]])]"

definition sample_parse :: "jsstring \<Rightarrow> jsstring + json" where
  "sample_parse text =
     (if text = lit ''{1}'' then Inr sample_document
      else if text = lit ''{2}'' then Inr sample_document_swapped
      else Inl (lit ''Unexpected token''))"

definition sample_candidates :: "OutdatedPackage list" where
  "sample_candidates =
     [\<lparr>id' = lit ''Newtonsoft.Json'',
       resolvedVersions = [lit ''13.0.1'', lit ''13.0.5''],
       latestVersions = [lit ''13.0.3''],
       contexts = [lit ''App (net8.0)'', lit ''App (net6.0)'']\<rparr>,
      \<lparr>id' = lit ''Serilog'',
       resolvedVersions = [lit ''3.0.0''],
       latestVersions = [lit ''3.1.1''],
       contexts = [lit ''App (net6.0)'']\<rparr>]"

definition sample_candidates_swapped :: "OutdatedPackage list" where
  "sample_candidates_swapped =
     [\<lparr>id' = lit ''Newtonsoft.Json'',
       resolvedVersions = [lit ''13.0.5'', lit ''13.0.1''],
       latestVersions = [lit ''13.0.3''],
       contexts = [lit ''App (net6.0)'', lit ''App (net8.0)'']\<rparr>,
      \<lparr>id' = lit ''Serilog'',
       resolvedVersions = [lit ''3.0.0''],
       latestVersions = [lit ''3.1.1''],
       contexts = [lit ''App (net6.0)'']\<rparr>]"
text \<open>
  A package and a candidate whose resolved version is the empty string, a document that
  lists \<open>Foo\<close> under two frameworks, the first time with that package, and a parser that
  returns this document.
\<close>

definition empty_version_package :: json where
  "empty_version_package =
     JObj [(lit ''id'', JStr (lit ''Foo'')), (lit ''resolvedVersion'', JStr []),
           (lit ''latestVersion'', JStr (lit ''2.0''))]"

definition empty_version_candidate :: OutdatedPackage where
  "empty_version_candidate =
     \<lparr>id' = lit ''Foo'', resolvedVersions = [Nil], latestVersions = [lit ''2.0''],
      contexts = [lit ''App (net8.0)'']\<rparr>"

definition empty_version_document :: json where
  "empty_version_document =
     JObj [(lit ''projects'', JArr
       [JObj [(lit ''name'', JStr (lit ''App'')),
              (lit ''frameworks'', JArr
                 [sample_framework ''net8.0'' [empty_version_package],
                  sample_framework ''net6.0'' [sample_package ''Foo'' ''1.0'' ''2.0'']])]])]"

definition empty_version_parse :: "jsstring \<Rightarrow> jsstring + json" where
  "empty_version_parse text = Inr empty_version_document"

text \<open>A map that already holds two candidates, \<open>Foo\<close> and \<open>Bar\<close>.\<close>

definition sample_packages :: packages where
  "sample_packages =
     [(lit ''Foo'', \<lparr>id' = lit ''Foo'', resolvedVersions = [lit ''0.9''],
                     latestVersions = [lit ''2.0''], contexts = [lit ''Lib (net6.0)'']\<rparr>),
      (lit ''Bar'', \<lparr>id' = lit ''Bar'', resolvedVersions = [lit ''1.1''],
                     latestVersions = [lit ''1.2''], contexts = [lit ''Lib (net6.0)'']\<rparr>)]"

section \<open>A sample run\<close>

text \<open>
  A platform with one workspace folder, on which every command closes with code 0, the
  listing call prints one line, the outdated-check call writes \<open>out\<close> and \<open>err\<close> to
  its two streams, and the picker is dismissed.
\<close>

definition sample_spawn :: "jsstring \<Rightarrow> jsstring \<Rightarrow> jsstring \<Rightarrow> jsstring \<Rightarrow> jsstring list \<Rightarrow> child" where
  "sample_spawn out err cwd command args =
     (if args = [lit ''list'', lit ''package'', lit ''--outdated'', lit ''--format'', lit ''json'']
      then \<lparr>chunks = [Stdout out, Stderr err], ending = Close (Some 0)\<rparr>
      else \<lparr>chunks = [Stdout (lit ''Project App'')], ending = Close (Some 0)\<rparr>)"

definition sample_platform :: "jsstring \<Rightarrow> jsstring \<Rightarrow> platform" where
  "sample_platform out err =
     \<lparr>workspaceFolders = Some [lit ''/work''],
      spawn = sample_spawn out err,
      showQuickPick = (\<lambda>items. None),
      JSON_parse = sample_parse,
      localeCompare = code_unit_compare\<rparr>"

text \<open>
  Names for the two notices, the two listing calls and the options of the second one in
  \<open>activate\<close>, and for the effects of a run up to the choice of the payload.
\<close>

definition no_json_message :: jsstring where
  "no_json_message = lit ''No JSON output received from dotnet list package --outdated.''"

definition nothing_selected_message :: jsstring where
  "nothing_selected_message = lit ''No packages selected for upgrade.''"

definition list_args :: "jsstring list" where
  "list_args = [lit ''list'', lit ''package'']"

definition outdated_args :: "jsstring list" where
  "outdated_args = [lit ''list'', lit ''package'', lit ''--outdated'', lit ''--format'', lit ''json'']"

definition silent :: "capture_options option" where
  "silent = Some \<lparr>echoStdout = Some False, echoStderr = Some False\<rparr>"

definition preamble :: "platform \<Rightarrow> jsstring \<Rightarrow> event list" where
  "preamble env cwd =
     [CreateOutputChannel (lit ''NuGet Package Upgrade''), ShowOutput,
      ShowInformationMessage (lit ''Running NuGet package checks...'')]
     @ fst (runCommand env cwd (lit ''dotnet'') list_args)
     @ fst (runCommandCapture env cwd (lit ''dotnet'') outdated_args silent)"

text \<open>The three calls that follow a selection: probe, installation, upgrade.\<close>

fun later_call :: "event \<Rightarrow> bool" where
  "later_call (Spawn cwd command args) =
     (args = [lit ''outdated'', lit ''--version''] \<or>
      args = [lit ''tool'', lit ''install'', lit ''--global'', lit ''dotnet-outdated-tool''] \<or>
      take 2 args = [lit ''outdated'', lit ''--upgrade''])"
| "later_call _ = False"
section \<open>Extraction: what it returns\<close>

lemma indexOf_lower: "- 1 \<le> indexOf s c"
  by (induction s) (auto simp: Let_def)

lemma indexOf_absent: "indexOf s c = - 1 \<longleftrightarrow> c \<notin> set s"
proof (induction s)
  case Nil
  then show ?case by simp
next
  case (Cons x xs)
  have "- 1 \<le> indexOf xs c" by (rule indexOf_lower)
  with Cons show ?case by (auto simp: Let_def)
qed

lemma first_at_Cons:
  "first_at (x # xs) c i \<longleftrightarrow> (if x = c then i = 0 else \<exists>n. i = Suc n \<and> first_at xs c n)"
  by (cases i) (auto simp: first_at_def)

lemma indexOf_first_at: "c \<in> set s \<Longrightarrow> 0 \<le> indexOf s c \<and> first_at s c (nat (indexOf s c))"
proof (induction s)
  case Nil
  then show ?case by simp
next
  case (Cons x xs)
  show ?case
  proof (cases "x = c")
    case True
    then show ?thesis by (simp add: first_at_Cons)
  next
    case False
    with Cons.prems have "c \<in> set xs" by simp
    with Cons.IH have ih: "0 \<le> indexOf xs c" "first_at xs c (nat (indexOf xs c))"
      by simp_all
    from False ih(1) have "indexOf (x # xs) c = indexOf xs c + 1"
      by (simp add: Let_def)
    moreover from ih(1) have "nat (indexOf xs c + 1) = Suc (nat (indexOf xs c))"
      by simp
    ultimately show ?thesis using ih False by (simp add: first_at_Cons)
  qed
qed

lemma first_at_indexOf: "first_at s c i \<Longrightarrow> indexOf s c = int i"
proof (induction s arbitrary: i)
  case Nil
  then show ?case by (simp add: first_at_def)
next
  case (Cons x xs)
  show ?case
  proof (cases "x = c")
    case True
    with Cons.prems show ?thesis by (simp add: first_at_Cons)
  next
    case False
    with Cons.prems obtain n where n: "i = Suc n" "first_at xs c n"
      by (auto simp: first_at_Cons)
    from Cons.IH [OF n(2)] False n(1) show ?thesis by (simp add: Let_def)
  qed
qed

lemma lastIndexOf_lower: "- 1 \<le> lastIndexOf s c"
  by (induction s) (auto simp: Let_def)

lemma lastIndexOf_absent: "lastIndexOf s c = - 1 \<longleftrightarrow> c \<notin> set s"
proof (induction s)
  case Nil
  then show ?case by simp
next
  case (Cons x xs)
  have "- 1 \<le> lastIndexOf xs c" by (rule lastIndexOf_lower)
  with Cons show ?case by (auto simp: Let_def)
qed

lemma last_at_Cons:
  "last_at (x # xs) c j \<longleftrightarrow>
     (if c \<in> set xs then \<exists>n. j = Suc n \<and> last_at xs c n else x = c \<and> j = 0)"
proof (cases j)
  case 0
  then show ?thesis by (auto simp: last_at_def)
next
  case (Suc n)
  have "c \<in> set xs" if "n < length xs" "xs ! n = c"
    using that by (metis nth_mem)
  with Suc show ?thesis by (auto simp: last_at_def)
qed

lemma lastIndexOf_last_at:
  "c \<in> set s \<Longrightarrow> 0 \<le> lastIndexOf s c \<and> last_at s c (nat (lastIndexOf s c))"
proof (induction s)
  case Nil
  then show ?case by simp
next
  case (Cons x xs)
  show ?case
  proof (cases "c \<in> set xs")
    case True
    with Cons.IH have ih: "0 \<le> lastIndexOf xs c" "last_at xs c (nat (lastIndexOf xs c))"
      by simp_all
    from ih(1) have "lastIndexOf (x # xs) c = lastIndexOf xs c + 1"
      by (simp add: Let_def)
    moreover from ih(1) have "nat (lastIndexOf xs c + 1) = Suc (nat (lastIndexOf xs c))"
      by simp
    ultimately show ?thesis using ih True by (simp add: last_at_Cons)
  next
    case False
    with Cons.prems have "x = c" by simp
    moreover from False have "lastIndexOf xs c = - 1" by (simp add: lastIndexOf_absent)
    ultimately show ?thesis using False by (simp add: last_at_Cons)
  qed
qed

lemma last_at_lastIndexOf: "last_at s c j \<Longrightarrow> lastIndexOf s c = int j"
proof (induction s arbitrary: j)
  case Nil
  then show ?case by (simp add: last_at_def)
next
  case (Cons x xs)
  show ?case
  proof (cases "c \<in> set xs")
    case True
    with Cons.prems obtain n where n: "j = Suc n" "last_at xs c n"
      by (auto simp: last_at_Cons)
    from Cons.IH [OF n(2)] n(1) show ?thesis by (simp add: Let_def)
  next
    case False
    then have "lastIndexOf xs c = - 1" by (simp add: lastIndexOf_absent)
    with False Cons.prems show ?thesis by (simp add: last_at_Cons)
  qed
qed

lemma slice_inside:
  "i \<le> length s \<Longrightarrow> j \<le> length s \<Longrightarrow> slice s (int i) (int j) = take (j - i) (drop i s)"
  by (simp add: slice_def Let_def nat_diff_distrib')

lemma extract_unchanged:
  "open_brace \<notin> set s \<or> close_brace \<notin> set s \<Longrightarrow> extractJsonPayload s = s"
proof -
  assume "open_brace \<notin> set s \<or> close_brace \<notin> set s"
  then have "indexOf s open_brace = - 1 \<or> lastIndexOf s close_brace = - 1"
    by (simp add: indexOf_absent lastIndexOf_absent)
  then show ?thesis by (auto simp: extractJsonPayload_def Let_def)
qed

lemma extract_between:
  assumes "first_at s open_brace i" and "last_at s close_brace j"
  shows "extractJsonPayload s = (if j \<le> i then s else take (j - i + 1) (drop i s))"
proof -
  from assms have fi: "indexOf s open_brace = int i" and lj: "lastIndexOf s close_brace = int j"
    by (simp_all add: first_at_indexOf last_at_lastIndexOf)
  from assms have bounds: "i < length s" "j < length s"
    by (simp_all add: first_at_def last_at_def)
  have "slice s (int i) (int j + 1) = take (Suc j - i) (drop i s)"
    using slice_inside [of i s "Suc j"] bounds by (simp add: add.commute)
  then show ?thesis
    using fi lj by (auto simp: extractJsonPayload_def Let_def Suc_diff_le)
qed

lemma lastIndexOf_end: "s \<noteq> [] \<Longrightarrow> last s = c \<Longrightarrow> lastIndexOf s c = int (length s) - 1"
proof (induction s)
  case Nil
  then show ?case by simp
next
  case (Cons x xs)
  show ?case
  proof (cases "xs = []")
    case True
    with Cons.prems show ?thesis by simp
  next
    case False
    with Cons have "lastIndexOf xs c = int (length xs) - 1" by simp
    moreover from False have "0 < length xs" by simp
    ultimately show ?thesis by (simp add: Let_def)
  qed
qed

text \<open>
  Claim C9. Extraction returns its input unchanged when the input has no opening brace
  or no closing brace, and when the last closing brace is not strictly after the first
  opening brace; otherwise it returns the substring from the first opening brace to the
  last closing brace, both included.
\<close>

theorem extract_spec:
  "(open_brace \<notin> set s \<or> close_brace \<notin> set s \<longrightarrow> extractJsonPayload s = s) \<and>
   (\<forall>i j. first_at s open_brace i \<and> last_at s close_brace j \<longrightarrow>
      extractJsonPayload s = (if j \<le> i then s else take (j - i + 1) (drop i s)))"
  using extract_unchanged [of s] extract_between [of s] by blast

theorem extract_spec_witness:
  "open_brace \<notin> set (lit ''  '') \<and> extractJsonPayload (lit ''  '') = lit ''  '' \<and>
   first_at (lit ''log {a} end'') open_brace 4 \<and> last_at (lit ''log {a} end'') close_brace 6 \<and>
   extractJsonPayload (lit ''log {a} end'') = lit ''{a}'' \<and>
   first_at (lit ''}{'') open_brace 1 \<and> last_at (lit ''}{'') close_brace 0 \<and>
   extractJsonPayload (lit ''}{'') = lit ''}{''"
proof -
  have a: "open_brace \<notin> set (lit ''  '')"
    by (simp add: lit_def)
  have b: "first_at (lit ''log {a} end'') open_brace 4 \<and> last_at (lit ''log {a} end'') close_brace 6"
    by (simp add: lit_def first_at_def last_at_def)
  have c: "first_at (lit ''}{'') open_brace 1 \<and> last_at (lit ''}{'') close_brace 0"
    by (simp add: lit_def first_at_def last_at_def)
  from a extract_spec [of "lit ''  ''"] have "extractJsonPayload (lit ''  '') = lit ''  ''"
    by blast
  moreover from b extract_spec [of "lit ''log {a} end''"]
  have "extractJsonPayload (lit ''log {a} end'') =
      (if (6::nat) \<le> 4 then lit ''log {a} end'' else take (6 - 4 + 1) (drop 4 (lit ''log {a} end'')))"
    by blast
  then have "extractJsonPayload (lit ''log {a} end'') = lit ''{a}''"
    by (simp add: lit_def)
  moreover from c extract_spec [of "lit ''}{''"]
  have "extractJsonPayload (lit ''}{'') = (if (0::nat) \<le> 1 then lit ''}{'' else take (0 - 1 + 1) (drop 1 (lit ''}{'')))"
    by blast
  then have "extractJsonPayload (lit ''}{'') = lit ''}{''"
    by simp
  ultimately show ?thesis using a b c by simp
qed

text \<open>
  Claim C8. Extraction is idempotent: extracting from an extracted payload returns it
  unchanged, for every input string.
\<close>

theorem extract_idem: "extractJsonPayload (extractJsonPayload s) = extractJsonPayload s"
proof (cases "indexOf s open_brace = - 1 \<or> lastIndexOf s close_brace = - 1
    \<or> lastIndexOf s close_brace \<le> indexOf s open_brace")
  case True
  then show ?thesis by (auto simp: extractJsonPayload_def Let_def)
next
  case False
  then have mem: "open_brace \<in> set s" "close_brace \<in> set s"
    and lt: "indexOf s open_brace < lastIndexOf s close_brace"
    by (auto simp: indexOf_absent lastIndexOf_absent)
  define i where "i = nat (indexOf s open_brace)"
  define j where "j = nat (lastIndexOf s close_brace)"
  from indexOf_first_at [OF mem(1)] lastIndexOf_last_at [OF mem(2)]
  have fa: "first_at s open_brace i" and la: "last_at s close_brace j"
    and ii: "indexOf s open_brace = int i" and jj: "lastIndexOf s close_brace = int j"
    by (simp_all add: i_def j_def)
  from lt ii jj have ij: "i < j" by simp
  from fa la have b: "i < length s" "j < length s" "s ! i = open_brace" "s ! j = close_brace"
    by (simp_all add: first_at_def last_at_def)
  define r where "r = take (j - i + 1) (drop i s)"
  have ex: "extractJsonPayload s = r"
    using extract_between [OF fa la] ij unfolding r_def by simp
  have len: "length r = j - i + 1" using b ij by (simp add: r_def)
  then have ne: "r \<noteq> []" by auto
  have "r ! 0 = open_brace" using b ij by (simp add: r_def)
  then have hd: "hd r = open_brace" using ne by (simp add: hd_conv_nth)
  have "r ! (j - i) = close_brace" using b ij by (simp add: r_def)
  then have lst: "last r = close_brace" using ne len by (simp add: last_conv_nth)
  from hd ne have f0: "indexOf r open_brace = 0" by (cases r) simp_all
  from lastIndexOf_end [OF ne lst] len have l0: "lastIndexOf r close_brace = int (j - i)" by simp
  have "slice r 0 (int (j - i) + 1) = r"
    using len by (simp add: slice_def Let_def)
  then have "extractJsonPayload r = r"
    using f0 l0 ij by (simp add: extractJsonPayload_def Let_def)
  with ex show ?thesis by simp
qed

theorem extract_idem_witness:
  "extractJsonPayload (lit ''log {a} end'') = lit ''{a}'' \<and>
   extractJsonPayload (extractJsonPayload (lit ''log {a} end'')) = lit ''{a}''"
proof -
  have "extractJsonPayload (lit ''log {a} end'') = lit ''{a}''"
    by (simp add: extractJsonPayload_def lit_def slice_def Let_def)
  with extract_idem [of "lit ''log {a} end''"] show ?thesis by simp
qed

section \<open>Normalization: one package entry\<close>

lemma lit_string_neq [simp]:
  "lit ''undefined'' \<noteq> lit ''string''" "lit ''object'' \<noteq> lit ''string''"
  "lit ''boolean'' \<noteq> lit ''string''" "lit ''number'' \<noteq> lit ''string''"
  by (simp_all add: lit_def)

lemma typeof_string: "typeof v = lit ''string'' \<longleftrightarrow> (\<exists>s. v = Some (JStr s))"
  by (cases v rule: typeof.cases) simp_all

lemma string_or_undefined_truthy:
  "truthy (string_or_undefined v) \<longleftrightarrow> nonempty_string v \<noteq> None"
  by (cases v rule: typeof.cases) (simp_all add: string_or_undefined_def nonempty_string_def)

lemma the_string_nonempty:
  "nonempty_string v = Some s \<Longrightarrow> the_string (string_or_undefined v) = s"
  by (cases v rule: typeof.cases)
     (simp_all add: string_or_undefined_def nonempty_string_def split: if_splits)

lemma usable_test:
  "(\<not> truthy v \<or> typeof v \<noteq> lit ''string'') \<longleftrightarrow> nonempty_string v = None"
  by (cases v rule: typeof.cases) (simp_all add: nonempty_string_def)

lemma the_string_id: "nonempty_string v = Some s \<Longrightarrow> the_string v = s"
  by (cases v rule: typeof.cases) (simp_all add: nonempty_string_def split: if_splits)

lemma store_absent: "k \<notin> fst ` set m \<Longrightarrow> store m k v = m"
  by (induction m) (auto simp: store_def)

lemma store_append_new:
  "map_of m k = None \<Longrightarrow> store (m @ [(k, u)]) k v = m @ [(k, v)]"
proof -
  assume "map_of m k = None"
  then have "k \<notin> fst ` set m" by (simp add: map_of_eq_None_iff)
  then have "store m k v = m" by (rule store_absent)
  then show ?thesis by (simp add: store_def)
qed

lemma update_resolved:
  "(if truthy (string_or_undefined v)
    then e\<lparr>resolvedVersions := set_add (the_string (string_or_undefined v)) (resolvedVersions e)\<rparr>
    else e) = e\<lparr>resolvedVersions := add_opt (nonempty_string v) (resolvedVersions e)\<rparr>"
  by (cases "nonempty_string v")
     (simp_all add: string_or_undefined_truthy add_opt_def the_string_nonempty)

lemma update_latest:
  "(if truthy (string_or_undefined v)
    then e\<lparr>latestVersions := set_add (the_string (string_or_undefined v)) (latestVersions e)\<rparr>
    else e) = e\<lparr>latestVersions := add_opt (nonempty_string v) (latestVersions e)\<rparr>"
  by (cases "nonempty_string v")
     (simp_all add: string_or_undefined_truthy add_opt_def the_string_nonempty)

lemma package_step_eq:
  "package_step pn fn pkgs pkg =
     (case usable_id pkg of
        None \<Rightarrow> Inr pkgs
      | Some k \<Rightarrow>
          (case context_string pn fn of
             Inl e \<Rightarrow> Inl e
           | Inr c \<Rightarrow> Inr (upsert pkgs k (resolved_of pkg) (latest_of pkg) c)))"
proof (cases "usable_id pkg")
  case None
  then have "nonempty_string (coalesce (member pkg (lit ''id'')) (member pkg (lit ''name''))) = None"
    by (simp add: usable_id_def)
  then have "\<not> truthy (coalesce (member pkg (lit ''id'')) (member pkg (lit ''name'')))
      \<or> typeof (coalesce (member pkg (lit ''id'')) (member pkg (lit ''name''))) \<noteq> lit ''string''"
    by (rule iffD2 [OF usable_test])
  with None show ?thesis
    by (auto simp: package_step_def Let_def)
next
  case (Some k)
  then have u: "nonempty_string (coalesce (member pkg (lit ''id'')) (member pkg (lit ''name''))) = Some k"
    by (simp add: usable_id_def)
  then have t: "\<not> (\<not> truthy (coalesce (member pkg (lit ''id'')) (member pkg (lit ''name'')))
      \<or> typeof (coalesce (member pkg (lit ''id'')) (member pkg (lit ''name''))) \<noteq> lit ''string'')"
    using usable_test [of "coalesce (member pkg (lit ''id'')) (member pkg (lit ''name''))"]
    by auto
  have k: "the_string (coalesce (member pkg (lit ''id'')) (member pkg (lit ''name''))) = k"
    using u by (rule the_string_id)
  show ?thesis
  proof (cases "context_string pn fn")
    case (Inl e)
    with Some t show ?thesis by (simp add: package_step_def Let_def)
  next
    case (Inr c)
    show ?thesis
    proof (cases "map_of pkgs k")
      case None
      with Some Inr t k show ?thesis
        unfolding package_step_def Let_def update_resolved update_latest
        by (simp add: upsert_def merged_def fresh_def store_append_new
              resolved_of_def latest_of_def)
    next
      case (Some e)
      with \<open>usable_id pkg = Some k\<close> Inr t k show ?thesis
        unfolding package_step_def Let_def update_resolved update_latest
        by (simp add: upsert_def merged_def resolved_of_def latest_of_def)
    qed
  qed
qed

lemma for_each_append:
  "for_each body s (xs @ ys) =
     (case for_each body s xs of Inl e \<Rightarrow> Inl e | Inr s' \<Rightarrow> for_each body s' ys)"
  by (induction xs arbitrary: s) (auto split: sum.splits)

lemma for_each_map:
  "for_each body s (map f xs) = for_each (\<lambda>s x. body s (f x)) s xs"
  by (induction xs arbitrary: s) (auto split: sum.splits)

lemma for_each_concat:
  "for_each body s (concat xss) = for_each (\<lambda>s xs. for_each body s xs) s xss"
  by (induction xss arbitrary: s) (auto simp: for_each_append split: sum.splits)

lemma for_each_cong:
  "(\<And>s x. x \<in> set xs \<Longrightarrow> f s x = g s x) \<Longrightarrow> for_each f s xs = for_each g s xs"
  by (induction xs arbitrary: s) (auto split: sum.splits)

lemma framework_step_entries:
  "framework_step pn =
     (\<lambda>s framework. for_each entry_step s
        (map (\<lambda>pkg. (pn, framework_name framework, pkg))
           (array_or_empty (member framework (lit ''topLevelPackages'')))))"
  by (intro ext) (simp add: framework_step_def Let_def for_each_map entry_step_def framework_name_def)

lemma project_step_entries:
  "project_step =
     (\<lambda>s project. for_each entry_step s
        (concat (map (\<lambda>framework.
           map (\<lambda>pkg. (project_name project, framework_name framework, pkg))
             (array_or_empty (member framework (lit ''topLevelPackages''))))
           (array_or_empty (member project (lit ''frameworks''))))))"
  by (intro ext)
     (simp add: project_step_def Let_def for_each_concat for_each_map framework_step_entries
        project_name_def)

lemma collect_entries: "collect data = for_each entry_step [] (package_entries data)"
  by (simp add: collect_def Let_def package_entries_def for_each_concat for_each_map
        project_step_entries)

section \<open>Normalization: what the map holds\<close>

lemma store_Nil: "store [] k v = []"
  by (simp add: store_def)

lemma store_Cons:
  "store ((a, b) # m) k v = (if a = k then (a, v) else (a, b)) # store m k v"
  by (simp add: store_def)

lemma map_fst_store: "map fst (store m k v) = map fst m"
  by (induction m) (auto simp: store_Nil store_Cons)

lemma map_of_store:
  "map_of (store m k v) k' = (if k' = k \<and> k \<in> fst ` set m then Some v else map_of m k')"
proof (induction m)
  case Nil
  then show ?case by (simp add: store_Nil)
next
  case (Cons x m)
  obtain a b where x: "x = (a, b)" by (cases x)
  from Cons show ?case unfolding x store_Cons by (cases "a = k") (fastforce simp: image_iff)+
qed

lemma map_of_upsert:
  "map_of (upsert pkgs k r l c) =
     (map_of pkgs)(k \<mapsto> merged (case map_of pkgs k of None \<Rightarrow> fresh k | Some e \<Rightarrow> e) r l c)"
proof (cases "map_of pkgs k")
  case None
  then show ?thesis by (auto simp: upsert_def fun_eq_iff map_add_def split: option.splits)
next
  case (Some e)
  then have "k \<in> fst ` set pkgs" by (auto dest: map_of_SomeD intro: rev_image_eqI)
  with Some show ?thesis by (auto simp: upsert_def fun_eq_iff map_of_store)
qed

lemma keys_upsert:
  "map fst (upsert pkgs k r l c) =
     (if map_of pkgs k = None then map fst pkgs @ [k] else map fst pkgs)"
  by (auto simp: upsert_def map_fst_store split: option.splits)

lemma set_add_set: "set (set_add x xs) = insert x (set xs)"
  by (auto simp: set_add_def)

lemma set_add_distinct: "distinct xs \<Longrightarrow> distinct (set_add x xs)"
  by (simp add: set_add_def)

lemma add_opt_set: "set (add_opt v xs) = set_option v \<union> set xs"
  by (cases v) (simp_all add: add_opt_def set_add_set)

lemma add_opt_distinct: "distinct xs \<Longrightarrow> distinct (add_opt v xs)"
  by (cases v) (simp_all add: add_opt_def set_add_distinct)

lemma ids_snoc:
  "ids (es @ [(pn, fn, p)]) = set_option (usable_id p) \<union> ids es"
  by (auto simp: ids_def)

lemma resolved_for_snoc:
  "resolved_for (es @ [(pn, fn, p)]) k =
     (if usable_id p = Some k then set_option (resolved_of p) else {}) \<union> resolved_for es k"
  by (auto simp: resolved_for_def)

lemma latest_for_snoc:
  "latest_for (es @ [(pn, fn, p)]) k =
     (if usable_id p = Some k then set_option (latest_of p) else {}) \<union> latest_for es k"
  by (auto simp: latest_for_def)

lemma contexts_for_snoc:
  "contexts_for (es @ [(pn, fn, p)]) k =
     (if usable_id p = Some k then {c. context_string pn fn = Inr c} else {}) \<union> contexts_for es k"
  by (auto simp: contexts_for_def)

lemma not_seen:
  assumes "k \<notin> ids es"
  shows "resolved_for es k = {}" "latest_for es k = {}" "contexts_for es k = {}"
  using assms by (auto simp: ids_def resolved_for_def latest_for_def contexts_for_def)

lemma summarises_fresh: "k \<notin> ids es \<Longrightarrow> summarises es k (fresh k)"
  by (simp add: summarises_def fresh_def not_seen)

lemma summarises_other:
  "usable_id p \<noteq> Some k \<Longrightarrow> summarises (es @ [(pn, fn, p)]) k v = summarises es k v"
  by (simp add: summarises_def resolved_for_snoc latest_for_snoc contexts_for_snoc)

lemma summarises_merged:
  assumes "summarises es k e" "usable_id p = Some k" "context_string pn fn = Inr c"
  shows "summarises (es @ [(pn, fn, p)]) k (merged e (resolved_of p) (latest_of p) c)"
  using assms
  by (simp add: summarises_def resolved_for_snoc latest_for_snoc contexts_for_snoc merged_def
        add_opt_set add_opt_distinct set_add_set set_add_distinct)

lemma collected_step:
  assumes inv: "collected es pkgs" and step: "entry_step pkgs e = Inr pkgs'"
  shows "collected (es @ [e]) pkgs'"
proof -
  obtain pn fn p where e: "e = (pn, fn, p)" by (cases e)
  show ?thesis
  proof (cases "usable_id p")
    case None
    with step e have same: "pkgs' = pkgs"
      by (simp add: entry_step_def package_step_eq)
    from None have "\<And>k. usable_id p \<noteq> Some k" by simp
    with inv None show ?thesis
      unfolding same e collected_def by (simp add: ids_snoc summarises_other)
  next
    case (Some k)
    with step e obtain c where c: "context_string pn fn = Inr c"
      and pkgs': "pkgs' = upsert pkgs k (resolved_of p) (latest_of p) c"
      by (auto simp: entry_step_def package_step_eq split: sum.splits)
    from inv have d: "distinct (map fst pkgs)" and keys: "fst ` set pkgs = ids es"
      and sums: "\<And>k v. map_of pkgs k = Some v \<Longrightarrow> summarises es k v"
      by (simp_all add: collected_def)
    have none_iff: "map_of pkgs k = None \<longleftrightarrow> k \<notin> ids es"
      using keys by (simp add: map_of_eq_None_iff)
    have "distinct (map fst pkgs')"
      using d keys none_iff by (auto simp: pkgs' keys_upsert)
    moreover have "fst ` set pkgs' = ids (es @ [e])"
    proof -
      have "fst ` set pkgs' = set (map fst pkgs')" by simp
      also have "\<dots> = insert k (ids es)"
        using keys none_iff unfolding pkgs' keys_upsert by (auto simp flip: keys)
      finally show ?thesis by (simp add: e ids_snoc Some)
    qed
    moreover have "summarises (es @ [e]) k' v" if look: "map_of pkgs' k' = Some v" for k' v
    proof (cases "k' = k")
      case True
      define old where "old = (case map_of pkgs k of None \<Rightarrow> fresh k | Some x \<Rightarrow> x)"
      have "summarises es k old"
        using none_iff sums unfolding old_def
        by (auto split: option.splits intro: summarises_fresh)
      then have "summarises (es @ [e]) k (merged old (resolved_of p) (latest_of p) c)"
        unfolding e using Some c by (rule summarises_merged)
      moreover from look True have "v = merged old (resolved_of p) (latest_of p) c"
        by (simp add: pkgs' map_of_upsert old_def)
      ultimately show ?thesis using True by simp
    next
      case False
      with look have "map_of pkgs k' = Some v" by (simp add: pkgs' map_of_upsert)
      then have "summarises es k' v" by (rule sums)
      moreover from False Some have "usable_id p \<noteq> Some k'" by simp
      ultimately show ?thesis by (simp add: e summarises_other)
    qed
    ultimately show ?thesis by (simp add: collected_def)
  qed
qed

lemma collected_empty: "collected [] []"
  by (simp add: collected_def ids_def)

lemma collected_for_each:
  "collected es pkgs \<Longrightarrow> for_each entry_step pkgs xs = Inr pkgs' \<Longrightarrow> collected (es @ xs) pkgs'"
proof (induction xs arbitrary: es pkgs)
  case Nil
  then show ?case by simp
next
  case (Cons x xs)
  from Cons.prems(2) obtain mid where mid: "entry_step pkgs x = Inr mid"
    and rest: "for_each entry_step mid xs = Inr pkgs'"
    by (auto split: sum.splits)
  from Cons.prems(1) mid have "collected (es @ [x]) mid" by (rule collected_step)
  from Cons.IH [OF this rest] show ?case by simp
qed

lemma collect_collected: "collect data = Inr pkgs \<Longrightarrow> collected (package_entries data) pkgs"
  using collected_for_each [where es = "[]" and pkgs = "[]" and xs = "package_entries data"
      and pkgs' = pkgs]
  by (simp add: collect_entries collected_empty)

lemma entry_step_isl: "isl (entry_step pkgs e) \<longleftrightarrow> throwing e"
  by (cases e) (auto simp: entry_step_def package_step_eq throwing_def split: option.splits sum.splits)

lemma for_each_isl: "isl (for_each entry_step pkgs xs) \<longleftrightarrow> (\<exists>e \<in> set xs. throwing e)"
proof (induction xs arbitrary: pkgs)
  case Nil then show ?case by simp
next
  case (Cons x xs)
  show ?case
  proof (cases "entry_step pkgs x")
    case (Inl err)
    then have "throwing x" using entry_step_isl [of pkgs x] by simp
    with Inl show ?thesis by simp
  next
    case (Inr mid)
    then have "\<not> throwing x" using entry_step_isl [of pkgs x] by simp
    with Inr Cons.IH [of mid] show ?thesis by simp
  qed
qed

lemma collect_isl: "isl (collect data) \<longleftrightarrow> (\<exists>e \<in> set (package_entries data). throwing e)"
  by (simp add: collect_entries for_each_isl)

text \<open>
  A package whose \<open>resolvedVersion\<close> is the empty string has a usable id and a
  resolved version that is present and a string, and the loop body leaves the resolved
  set empty: the guard \<open>if (resolved)\<close> tests truthiness, and the empty string is falsy.
\<close>

theorem empty_version_not_added:
  "coalesce (member empty_version_package (lit ''id'')) (member empty_version_package (lit ''name''))
     = Some (JStr (lit ''Foo'')) \<and>
   member empty_version_package (lit ''resolvedVersion'') = Some (JStr []) \<and>
   package_step (Some (JStr (lit ''App''))) (Some (JStr (lit ''net8.0''))) [] empty_version_package =
     Inr [(lit ''Foo'', \<lparr>id' = lit ''Foo'', resolvedVersions = [],
            latestVersions = [lit ''2.0''], contexts = [lit ''App (net8.0)'']\<rparr>)]"
  by code_simp

text \<open>
  A project name that is an object with an own \<open>toString\<close> property has no string
  conversion: the loop body throws on the first package with a usable id.
\<close>

lemma context_string_throws:
  "package_step (Some (JObj [(lit ''toString'', JNum (lit ''1''))])) (Some (JStr (lit ''net8.0''))) []
     (sample_package ''Foo'' ''1.0'' ''2.0'') = Inl cannot_convert"
  by code_simp

text \<open>
  Claim C2, amended. For a package entry with a usable string id, on which the context
  string \<open><project> (<framework>)\<close> can be composed, the loop body returns the map
  in which the candidate of that id (a new one, placed last, when the map had none) has
  the entry's resolved version added when that field is a non-empty string, its latest
  version added when that field is a non-empty string, and the context string added
  whatever the version fields are; what the candidate held before is kept, and so are
  the other candidates and the order of the map.
\<close>

theorem package_step_adds:
  assumes "coalesce (member pkg (lit ''id'')) (member pkg (lit ''name'')) = Some (JStr k)"
    and "k \<noteq> []"
    and "context_string projectName frameworkName = Inr context"
  shows "let old = (case map_of pkgs k of
                      None \<Rightarrow> \<lparr>id' = k, resolvedVersions = [], latestVersions = [], contexts = []\<rparr>
                    | Some e \<Rightarrow> e);
             entry = old
               \<lparr>resolvedVersions :=
                  (case member pkg (lit ''resolvedVersion'') of
                     Some (JStr r) \<Rightarrow>
                       if r = [] then resolvedVersions old else set_add r (resolvedVersions old)
                   | _ \<Rightarrow> resolvedVersions old),
                latestVersions :=
                  (case member pkg (lit ''latestVersion'') of
                     Some (JStr l) \<Rightarrow>
                       if l = [] then latestVersions old else set_add l (latestVersions old)
                   | _ \<Rightarrow> latestVersions old),
                contexts := set_add context (contexts old)\<rparr>;
             pkgs' = (case map_of pkgs k of
                        None \<Rightarrow> pkgs @ [(k, entry)]
                      | Some e \<Rightarrow> store pkgs k entry)
         in package_step projectName frameworkName pkgs pkg = Inr pkgs' \<and>
            map_of pkgs' k = Some entry \<and>
            (\<forall>k'. k' \<noteq> k \<longrightarrow> map_of pkgs' k' = map_of pkgs k') \<and>
            map fst pkgs' = (if map_of pkgs k = None then map fst pkgs @ [k] else map fst pkgs) \<and>
            set (resolvedVersions old) \<subseteq> set (resolvedVersions entry) \<and>
            set (latestVersions old) \<subseteq> set (latestVersions entry) \<and>
            set (contexts old) \<subseteq> set (contexts entry) \<and>
            (\<forall>r. member pkg (lit ''resolvedVersion'') = Some (JStr r) \<and> r \<noteq> []
                 \<longrightarrow> r \<in> set (resolvedVersions entry)) \<and>
            (\<forall>l. member pkg (lit ''latestVersion'') = Some (JStr l) \<and> l \<noteq> []
                 \<longrightarrow> l \<in> set (latestVersions entry)) \<and>
            context \<in> set (contexts entry)"
proof -
  from assms(1,2) have u: "usable_id pkg = Some k"
    by (simp add: usable_id_def nonempty_string_def)
  define old where "old = (case map_of pkgs k of None \<Rightarrow> fresh k | Some e \<Rightarrow> e)"
  define entry where "entry = merged old (resolved_of pkg) (latest_of pkg) context"
  define pkgs' where "pkgs' = upsert pkgs k (resolved_of pkg) (latest_of pkg) context"
  have version: "add_opt (nonempty_string v) xs =
      (case v of Some (JStr r) \<Rightarrow> if r = [] then xs else set_add r xs | _ \<Rightarrow> xs)" for v xs
    by (simp add: add_opt_def nonempty_string_def split: option.splits json.splits)
  have old: "old = (case map_of pkgs k of
      None \<Rightarrow> \<lparr>id' = k, resolvedVersions = [], latestVersions = [], contexts = []\<rparr>
    | Some e \<Rightarrow> e)"
    by (simp add: old_def fresh_def split: option.splits)
  have entry: "entry = old
      \<lparr>resolvedVersions :=
         (case member pkg (lit ''resolvedVersion'') of
            Some (JStr r) \<Rightarrow> if r = [] then resolvedVersions old else set_add r (resolvedVersions old)
          | _ \<Rightarrow> resolvedVersions old),
       latestVersions :=
         (case member pkg (lit ''latestVersion'') of
            Some (JStr l) \<Rightarrow> if l = [] then latestVersions old else set_add l (latestVersions old)
          | _ \<Rightarrow> latestVersions old),
       contexts := set_add context (contexts old)\<rparr>"
    by (simp add: entry_def merged_def resolved_of_def latest_of_def version)
  have pkgs': "pkgs' = (case map_of pkgs k of
      None \<Rightarrow> pkgs @ [(k, entry)] | Some e \<Rightarrow> store pkgs k entry)"
    by (simp add: pkgs'_def upsert_def entry_def old_def split: option.splits)
  have step: "package_step projectName frameworkName pkgs pkg = Inr pkgs'"
    by (simp add: package_step_eq u assms(3) pkgs'_def)
  have look: "map_of pkgs' k = Some entry"
    by (simp add: pkgs'_def map_of_upsert entry_def old_def)
  have others: "\<forall>k'. k' \<noteq> k \<longrightarrow> map_of pkgs' k' = map_of pkgs k'"
    by (simp add: pkgs'_def map_of_upsert)
  have keys: "map fst pkgs' = (if map_of pkgs k = None then map fst pkgs @ [k] else map fst pkgs)"
    by (simp add: pkgs'_def keys_upsert)
  have kept: "set (resolvedVersions old) \<subseteq> set (resolvedVersions entry)"
    "set (latestVersions old) \<subseteq> set (latestVersions entry)"
    "set (contexts old) \<subseteq> set (contexts entry)"
    by (auto simp: entry_def merged_def add_opt_set set_add_set)
  have r: "\<forall>r. member pkg (lit ''resolvedVersion'') = Some (JStr r) \<and> r \<noteq> []
      \<longrightarrow> r \<in> set (resolvedVersions entry)"
    by (simp add: entry_def merged_def add_opt_set resolved_of_def nonempty_string_def)
  have l: "\<forall>l. member pkg (lit ''latestVersion'') = Some (JStr l) \<and> l \<noteq> []
      \<longrightarrow> l \<in> set (latestVersions entry)"
    by (simp add: entry_def merged_def add_opt_set latest_of_def nonempty_string_def)
  have c: "context \<in> set (contexts entry)"
    by (simp add: entry_def merged_def set_add_set)
  from step look others keys kept r l c show ?thesis
    unfolding Let_def old [symmetric] entry [symmetric] pkgs' [symmetric] by blast
qed

theorem package_step_adds_witness:
  "coalesce (member (sample_package ''Foo'' ''1.0'' ''2.0'') (lit ''id''))
      (member (sample_package ''Foo'' ''1.0'' ''2.0'') (lit ''name'')) = Some (JStr (lit ''Foo'')) \<and>
   lit ''Foo'' \<noteq> [] \<and>
   context_string (Some (JStr (lit ''App''))) (Some (JStr (lit ''net8.0''))) = Inr (lit ''App (net8.0)'') \<and>
   package_step (Some (JStr (lit ''App''))) (Some (JStr (lit ''net8.0''))) sample_packages
       (sample_package ''Foo'' ''1.0'' ''2.0'') =
     Inr [(lit ''Foo'', \<lparr>id' = lit ''Foo'', resolvedVersions = [lit ''0.9'', lit ''1.0''],
                          latestVersions = [lit ''2.0''],
                          contexts = [lit ''Lib (net6.0)'', lit ''App (net8.0)'']\<rparr>),
          (lit ''Bar'', \<lparr>id' = lit ''Bar'', resolvedVersions = [lit ''1.1''],
                          latestVersions = [lit ''1.2''], contexts = [lit ''Lib (net6.0)'']\<rparr>)]"
proof -
  let ?pkg = "sample_package ''Foo'' ''1.0'' ''2.0''"
  let ?old = "case map_of sample_packages (lit ''Foo'') of
      None \<Rightarrow> \<lparr>id' = lit ''Foo'', resolvedVersions = [], latestVersions = [], contexts = []\<rparr>
    | Some e \<Rightarrow> e"
  let ?entry = "?old
      \<lparr>resolvedVersions :=
         (case member ?pkg (lit ''resolvedVersion'') of
            Some (JStr r) \<Rightarrow> if r = [] then resolvedVersions ?old else set_add r (resolvedVersions ?old)
          | _ \<Rightarrow> resolvedVersions ?old),
       latestVersions :=
         (case member ?pkg (lit ''latestVersion'') of
            Some (JStr l) \<Rightarrow> if l = [] then latestVersions ?old else set_add l (latestVersions ?old)
          | _ \<Rightarrow> latestVersions ?old),
       contexts := set_add (lit ''App (net8.0)'') (contexts ?old)\<rparr>"
  let ?new = "case map_of sample_packages (lit ''Foo'') of
      None \<Rightarrow> sample_packages @ [(lit ''Foo'', ?entry)]
    | Some e \<Rightarrow> store sample_packages (lit ''Foo'') ?entry"
  have a: "coalesce (member ?pkg (lit ''id'')) (member ?pkg (lit ''name'')) = Some (JStr (lit ''Foo''))"
    by code_simp
  have b: "lit ''Foo'' \<noteq> []" by code_simp
  have c: "context_string (Some (JStr (lit ''App''))) (Some (JStr (lit ''net8.0'')))
      = Inr (lit ''App (net8.0)'')"
    by code_simp
  from package_step_adds [OF a b c, of sample_packages]
  have "package_step (Some (JStr (lit ''App''))) (Some (JStr (lit ''net8.0''))) sample_packages ?pkg
      = Inr ?new"
    unfolding Let_def by (rule conjunct1)
  moreover have "?new =
     [(lit ''Foo'', \<lparr>id' = lit ''Foo'', resolvedVersions = [lit ''0.9'', lit ''1.0''],
                      latestVersions = [lit ''2.0''],
                      contexts = [lit ''Lib (net6.0)'', lit ''App (net8.0)'']\<rparr>),
      (lit ''Bar'', \<lparr>id' = lit ''Bar'', resolvedVersions = [lit ''1.1''],
                      latestVersions = [lit ''1.2''], contexts = [lit ''Lib (net6.0)'']\<rparr>)]"
    by code_simp
  ultimately show ?thesis using a b c by simp
qed

section \<open>Normalization: the returned sequence\<close>

lemma mset_insert_sorted: "mset (insert_sorted cmp x xs) = add_mset x (mset xs)"
  by (induction xs) simp_all

lemma mset_array_sort: "mset (array_sort cmp xs) = mset xs"
  unfolding array_sort_def by (induction xs) (simp_all add: mset_insert_sorted)

lemma set_array_sort: "set (array_sort cmp xs) = set xs"
  using mset_array_sort [of cmp xs] by (metis set_mset_mset)

lemma set_insert_sorted: "set (insert_sorted cmp x xs) = insert x (set xs)"
  using mset_insert_sorted [of cmp x xs] by (metis set_mset_mset set_mset_add_mset_insert)

lemma sorted_insert_sorted:
  assumes "consistent cmp" "sorted_wrt (\<lambda>a b. cmp a b \<le> 0) xs"
  shows "sorted_wrt (\<lambda>a b. cmp a b \<le> 0) (insert_sorted cmp x xs)"
  using assms(2)
proof (induction xs)
  case Nil
  then show ?case by simp
next
  case (Cons y ys)
  from assms(1) have total: "\<And>a b. cmp a b \<le> 0 \<or> cmp b a \<le> 0"
    and trans: "\<And>a b c. cmp a b \<le> 0 \<Longrightarrow> cmp b c \<le> 0 \<Longrightarrow> cmp a c \<le> 0"
    unfolding consistent_def by blast+
  show ?case
  proof (cases "cmp x y \<le> 0")
    case True
    with Cons.prems trans show ?thesis by auto
  next
    case False
    with total have "cmp y x \<le> 0" by blast
    with False Cons show ?thesis by (auto simp: set_insert_sorted)
  qed
qed

lemma sorted_array_sort:
  "consistent cmp \<Longrightarrow> sorted_wrt (\<lambda>a b. cmp a b \<le> 0) (array_sort cmp xs)"
  unfolding array_sort_def by (induction xs) (simp_all add: sorted_insert_sorted)

lemma consistent_on_id:
  "consistent cmp \<Longrightarrow> consistent (\<lambda>a b. cmp (id' a) (id' b))"
  unfolding consistent_def by blast

lemma parse_result:
  assumes "parseOutdatedPackages parse cmp text = Inr ps"
  shows "\<exists>data pkgs. parse (extractJsonPayload text) = Inr data \<and> collect data = Inr pkgs \<and>
    ps = array_sort (\<lambda>a b. cmp (id' a) (id' b)) (map snd pkgs)"
  using assms by (auto simp: parseOutdatedPackages_def split: sum.splits)

lemma collected_members:
  assumes "collected es pkgs"
  shows "c \<in> snd ` set pkgs \<longleftrightarrow> id' c \<in> ids es \<and> summarises es (id' c) c \<and> map_of pkgs (id' c) = Some c"
proof
  assume "c \<in> snd ` set pkgs"
  then obtain k where kc: "(k, c) \<in> set pkgs" by auto
  with assms have look: "map_of pkgs k = Some c" by (simp add: collected_def)
  with assms have s: "summarises es k c" by (simp add: collected_def)
  then have "id' c = k" by (simp add: summarises_def)
  moreover from kc assms have "k \<in> ids es" unfolding collected_def by (metis fst_conv image_eqI)
  ultimately show "id' c \<in> ids es \<and> summarises es (id' c) c \<and> map_of pkgs (id' c) = Some c"
    using s look by simp
next
  assume "id' c \<in> ids es \<and> summarises es (id' c) c \<and> map_of pkgs (id' c) = Some c"
  then have "(id' c, c) \<in> set pkgs" by (auto dest: map_of_SomeD)
  then show "c \<in> snd ` set pkgs" by (metis image_eqI snd_conv)
qed

lemma collected_ids:
  assumes "collected es pkgs"
  shows "map id' (map snd pkgs) = map fst pkgs"
proof -
  have "id' (snd x) = fst x" if "x \<in> set pkgs" for x
  proof -
    from that assms have "map_of pkgs (fst x) = Some (snd x)" by (simp add: collected_def)
    with assms have "summarises es (fst x) (snd x)" by (simp add: collected_def)
    then show ?thesis by (simp add: summarises_def)
  qed
  then show ?thesis by simp
qed

lemma sample_result:
  "parseOutdatedPackages sample_parse code_unit_compare (lit ''log {1} end'') = Inr sample_candidates"
  by code_simp

lemma sample_result_swapped:
  "parseOutdatedPackages sample_parse code_unit_compare (lit ''{2}'') = Inr sample_candidates_swapped"
  by code_simp

lemma sample_parsed:
  "sample_parse (extractJsonPayload (lit ''log {1} end'')) = Inr sample_document"
  by code_simp

lemma sample_parsed_swapped:
  "sample_parse (extractJsonPayload (lit ''{2}'')) = Inr sample_document_swapped"
  by code_simp

lemma sample_same_entries:
  "mset (package_entries sample_document) = mset (package_entries sample_document_swapped)"
  by code_simp

lemma consistent_code_unit_compare: "consistent code_unit_compare"
  unfolding consistent_def code_unit_compare_def by auto

text \<open>
  A document lists \<open>Foo\<close> twice, once with the empty string as resolved version and
  once with \<open>1.0\<close>: the one candidate returned holds \<open>1.0\<close> only, so the empty
  string of the first entry is not accumulated.
\<close>

theorem empty_version_not_accumulated:
  "(Some (JStr (lit ''App'')), Some (JStr (lit ''net8.0'')), empty_version_package)
      \<in> set (package_entries empty_version_document) \<and>
   coalesce (member empty_version_package (lit ''id'')) (member empty_version_package (lit ''name''))
     = Some (JStr (lit ''Foo'')) \<and>
   member empty_version_package (lit ''resolvedVersion'') = Some (JStr []) \<and>
   parseOutdatedPackages empty_version_parse code_unit_compare (lit ''{}'') =
     Inr [\<lparr>id' = lit ''Foo'', resolvedVersions = [lit ''1.0''], latestVersions = [lit ''2.0''],
           contexts = [lit ''App (net8.0)'', lit ''App (net6.0)'']\<rparr>]"
  by code_simp

text \<open>
  Claim C3, amended. The sequence returned for a parsed payload holds exactly one
  candidate for each package id of its entries: the ids of the sequence are pairwise
  different, they are the usable ids of the entries, and each candidate's sets hold, of
  all the entries with its id, the resolved versions that are non-empty strings, the
  latest versions that are non-empty strings, and the context strings.
\<close>

theorem one_candidate_per_id:
  assumes "parse (extractJsonPayload text) = Inr data"
    and "parseOutdatedPackages parse cmp text = Inr ps"
  shows "distinct (map id' ps) \<and>
         set (map id' ps) = ids (package_entries data) \<and>
         (\<forall>c \<in> set ps.
            set (resolvedVersions c) = resolved_for (package_entries data) (id' c) \<and>
            set (latestVersions c) = latest_for (package_entries data) (id' c) \<and>
            set (contexts c) = contexts_for (package_entries data) (id' c))"
proof -
  from assms obtain pkgs where col: "collect data = Inr pkgs"
    and ps: "ps = array_sort (\<lambda>a b. cmp (id' a) (id' b)) (map snd pkgs)"
    by (auto simp: parseOutdatedPackages_def split: sum.splits)
  let ?es = "package_entries data"
  from col have inv: "collected ?es pkgs" by (rule collect_collected)
  have "mset (map id' ps) = image_mset id' (mset ps)" by simp
  also have "\<dots> = image_mset id' (mset (map snd pkgs))" by (simp only: ps mset_array_sort)
  also have "\<dots> = mset (map id' (map snd pkgs))" by (simp only: mset_map)
  also have "\<dots> = mset (map fst pkgs)" by (simp only: collected_ids [OF inv])
  finally have "mset (map id' ps) = mset (map fst pkgs)" .
  moreover from inv have "distinct (map fst pkgs)" "set (map fst pkgs) = ids ?es"
    by (simp_all add: collected_def)
  ultimately have "distinct (map id' ps)" "set (map id' ps) = ids ?es"
    by (metis mset_eq_imp_distinct_iff, metis set_mset_mset)
  moreover have "\<forall>c \<in> set ps.
        set (resolvedVersions c) = resolved_for ?es (id' c) \<and>
        set (latestVersions c) = latest_for ?es (id' c) \<and>
        set (contexts c) = contexts_for ?es (id' c)"
  proof
    fix c assume "c \<in> set ps"
    then have "c \<in> snd ` set pkgs" by (simp add: ps set_array_sort)
    with inv have "summarises ?es (id' c) c" by (simp add: collected_members)
    then show "set (resolvedVersions c) = resolved_for ?es (id' c) \<and>
        set (latestVersions c) = latest_for ?es (id' c) \<and>
        set (contexts c) = contexts_for ?es (id' c)"
      by (simp add: summarises_def)
  qed
  ultimately show ?thesis by simp
qed

theorem one_candidate_per_id_witness:
  "sample_parse (extractJsonPayload (lit ''log {1} end'')) = Inr sample_document \<and>
   parseOutdatedPackages sample_parse code_unit_compare (lit ''log {1} end'') = Inr sample_candidates \<and>
   distinct (map id' sample_candidates) \<and>
   ids (package_entries sample_document) = {lit ''Newtonsoft.Json'', lit ''Serilog''} \<and>
   resolved_for (package_entries sample_document) (lit ''Newtonsoft.Json'')
     = {lit ''13.0.1'', lit ''13.0.5''} \<and>
   latest_for (package_entries sample_document) (lit ''Newtonsoft.Json'') = {lit ''13.0.3''} \<and>
   contexts_for (package_entries sample_document) (lit ''Newtonsoft.Json'')
     = {lit ''App (net8.0)'', lit ''App (net6.0)''}"
proof -
  note h = one_candidate_per_id [OF sample_parsed sample_result]
  have first: "hd sample_candidates \<in> set sample_candidates"
    "id' (hd sample_candidates) = lit ''Newtonsoft.Json''"
    by (simp_all add: sample_candidates_def)
  from h have "distinct (map id' sample_candidates)"
    by blast
  moreover from h have "ids (package_entries sample_document) = set (map id' sample_candidates)"
    by simp
  then have "ids (package_entries sample_document) = {lit ''Newtonsoft.Json'', lit ''Serilog''}"
    by (simp add: sample_candidates_def)
  moreover from h first
  have "set (resolvedVersions (hd sample_candidates)) =
          resolved_for (package_entries sample_document) (lit ''Newtonsoft.Json'')"
    and "set (latestVersions (hd sample_candidates)) =
          latest_for (package_entries sample_document) (lit ''Newtonsoft.Json'')"
    and "set (contexts (hd sample_candidates)) =
          contexts_for (package_entries sample_document) (lit ''Newtonsoft.Json'')"
    by metis+
  then have "resolved_for (package_entries sample_document) (lit ''Newtonsoft.Json'')
        = {lit ''13.0.1'', lit ''13.0.5''}"
    and "latest_for (package_entries sample_document) (lit ''Newtonsoft.Json'') = {lit ''13.0.3''}"
    and "contexts_for (package_entries sample_document) (lit ''Newtonsoft.Json'')
        = {lit ''App (net8.0)'', lit ''App (net6.0)''}"
    by (simp_all add: sample_candidates_def)
  ultimately show ?thesis using sample_parsed sample_result by blast
qed

lemma nonempty_string_Some: "nonempty_string v = Some s \<Longrightarrow> s \<noteq> []"
  by (auto simp: nonempty_string_def split: option.splits json.splits if_splits)

lemma produced_candidate:
  assumes "parseOutdatedPackages parse cmp text = Inr ps" and "c \<in> set ps"
  shows "[] \<notin> set (resolvedVersions c) \<and> [] \<notin> set (latestVersions c) \<and> contexts c \<noteq> []"
proof -
  from parse_result [OF assms(1)] obtain data pkgs where col: "collect data = Inr pkgs"
    and ps: "ps = array_sort (\<lambda>a b. cmp (id' a) (id' b)) (map snd pkgs)"
    by blast
  let ?es = "package_entries data"
  from col have inv: "collected ?es pkgs" by (rule collect_collected)
  from assms(2) have "c \<in> snd ` set pkgs" by (simp add: ps set_array_sort)
  with inv have seen: "id' c \<in> ids ?es" and s: "summarises ?es (id' c) c"
    by (simp_all add: collected_members)
  have "[] \<notin> resolved_for ?es (id' c)"
    by (auto simp: resolved_for_def resolved_of_def dest: nonempty_string_Some)
  moreover have "[] \<notin> latest_for ?es (id' c)"
    by (auto simp: latest_for_def latest_of_def dest: nonempty_string_Some)
  moreover have "contexts_for ?es (id' c) \<noteq> {}"
  proof -
    from seen obtain pn fn p where e: "(pn, fn, p) \<in> set ?es" and u: "usable_id p = Some (id' c)"
      by (auto simp: ids_def)
    from col have "\<not> isl (collect data)" by simp
    with e have "\<not> throwing (pn, fn, p)" by (auto simp: collect_isl)
    with u obtain ctx where "context_string pn fn = Inr ctx"
      by (cases "context_string pn fn") (auto simp: throwing_def)
    with e u have "ctx \<in> contexts_for ?es (id' c)" by (auto simp: contexts_for_def)
    then show ?thesis by auto
  qed
  ultimately show ?thesis using s unfolding summarises_def by (metis set_empty)
qed

text \<open>
  Claim C10. In every candidate that normalization returns, no resolved version and no
  latest version is the empty string, and the context set is not empty.
\<close>

theorem candidate_invariant:
  assumes "parseOutdatedPackages parse cmp text = Inr ps" and "c \<in> set ps"
  shows "[] \<notin> set (resolvedVersions c) \<and> [] \<notin> set (latestVersions c) \<and> contexts c \<noteq> []"
  using assms by (rule produced_candidate)

theorem candidate_invariant_witness:
  "parseOutdatedPackages sample_parse code_unit_compare (lit ''log {1} end'') = Inr sample_candidates \<and>
   hd sample_candidates \<in> set sample_candidates \<and>
   [] \<notin> set (resolvedVersions (hd sample_candidates)) \<and>
   [] \<notin> set (latestVersions (hd sample_candidates)) \<and>
   contexts (hd sample_candidates) \<noteq> []"
proof -
  have mem: "hd sample_candidates \<in> set sample_candidates"
    by (simp add: sample_candidates_def)
  from candidate_invariant [OF sample_result mem] mem sample_result show ?thesis
    by blast
qed

text \<open>
  Claim C6. The returned sequence is sorted by id, ascending under the locale
  comparison, which is taken to order consistently.
\<close>

theorem sorted_by_id:
  assumes "consistent cmp" and "parseOutdatedPackages parse cmp text = Inr ps"
  shows "sorted_wrt (by_id cmp) ps"
proof -
  from parse_result [OF assms(2)] obtain pkgs :: packages where
    ps: "ps = array_sort (\<lambda>a b. cmp (id' a) (id' b)) (map snd pkgs)"
    by blast
  from assms(1) have "consistent (\<lambda>a b. cmp (id' a) (id' b))" by (rule consistent_on_id)
  then have "sorted_wrt (\<lambda>a b. cmp (id' a) (id' b) \<le> 0) ps"
    unfolding ps by (rule sorted_array_sort)
  then show ?thesis by (simp add: by_id_def [abs_def])
qed

theorem sorted_by_id_witness:
  "consistent code_unit_compare \<and>
   parseOutdatedPackages sample_parse code_unit_compare (lit ''log {1} end'') = Inr sample_candidates \<and>
   sorted_wrt (by_id code_unit_compare) sample_candidates"
  using sorted_by_id [OF consistent_code_unit_compare sample_result]
    consistent_code_unit_compare sample_result
  by blast

lemma ids_set: "set es = set es' \<Longrightarrow> ids es = ids es'"
  by (simp add: ids_def)

lemma resolved_for_set: "set es = set es' \<Longrightarrow> resolved_for es = resolved_for es'"
  by (simp add: resolved_for_def fun_eq_iff)

lemma latest_for_set: "set es = set es' \<Longrightarrow> latest_for es = latest_for es'"
  by (simp add: latest_for_def fun_eq_iff)

lemma contexts_for_set: "set es = set es' \<Longrightarrow> contexts_for es = contexts_for es'"
  by (simp add: contexts_for_def fun_eq_iff)

lemma summarises_set: "set es = set es' \<Longrightarrow> summarises es k v = summarises es' k v"
  by (simp add: summarises_def resolved_for_set [of es es'] latest_for_set [of es es']
        contexts_for_set [of es es'])

lemma summary_image:
  assumes "collected es pkgs"
  shows "summary ` snd ` set pkgs =
     (\<lambda>k. (k, resolved_for es k, latest_for es k, contexts_for es k)) ` ids es"
proof (intro set_eqI iffI)
  fix x assume "x \<in> summary ` snd ` set pkgs"
  then obtain c where c: "c \<in> snd ` set pkgs" and x: "x = summary c" by auto
  from c assms have "id' c \<in> ids es" "summarises es (id' c) c" by (simp_all add: collected_members)
  then show "x \<in> (\<lambda>k. (k, resolved_for es k, latest_for es k, contexts_for es k)) ` ids es"
    unfolding x summary_def summarises_def by auto
next
  fix x assume "x \<in> (\<lambda>k. (k, resolved_for es k, latest_for es k, contexts_for es k)) ` ids es"
  then obtain k where k: "k \<in> ids es"
    and x: "x = (k, resolved_for es k, latest_for es k, contexts_for es k)" by auto
  from k assms have "k \<in> fst ` set pkgs" by (simp add: collected_def)
  then obtain c where kc: "(k, c) \<in> set pkgs" by auto
  with assms have "map_of pkgs k = Some c" by (simp add: collected_def)
  with assms have "summarises es k c" by (simp add: collected_def)
  then have "summary c = x" unfolding x summary_def summarises_def by simp
  moreover from kc have "c \<in> snd ` set pkgs" by (metis image_eqI snd_conv)
  ultimately show "x \<in> summary ` snd ` set pkgs" by blast
qed

text \<open>
  Claim C5. Two payloads with the same multiset of package entries, in whatever order
  the projects and frameworks list them, give the same candidates: when normalization
  returns for one it returns for the other, the candidates agree in id, in resolved and
  latest versions and in contexts as sets, and both sequences are sorted by id.
\<close>

theorem order_independent:
  assumes "parse (extractJsonPayload text1) = Inr data1"
    and "parse (extractJsonPayload text2) = Inr data2"
    and "mset (package_entries data1) = mset (package_entries data2)"
    and "consistent cmp"
    and "parseOutdatedPackages parse cmp text1 = Inr ps1"
  shows "\<exists>ps2. parseOutdatedPackages parse cmp text2 = Inr ps2 \<and>
           summary ` set ps1 = summary ` set ps2 \<and>
           sorted_wrt (by_id cmp) ps1 \<and> sorted_wrt (by_id cmp) ps2"
proof -
  let ?es1 = "package_entries data1" and ?es2 = "package_entries data2"
  from assms(3) have same: "set ?es1 = set ?es2" by (rule mset_eq_setD)
  from assms(1,5) obtain pkgs1 where col1: "collect data1 = Inr pkgs1"
    and ps1: "ps1 = array_sort (\<lambda>a b. cmp (id' a) (id' b)) (map snd pkgs1)"
    by (auto simp: parseOutdatedPackages_def split: sum.splits)
  from col1 have "\<not> isl (collect data1)" by simp
  then have "\<not> isl (collect data2)" by (simp add: collect_isl same)
  then obtain pkgs2 where col2: "collect data2 = Inr pkgs2" by (cases "collect data2") auto
  define ps2 where "ps2 = array_sort (\<lambda>a b. cmp (id' a) (id' b)) (map snd pkgs2)"
  have r2: "parseOutdatedPackages parse cmp text2 = Inr ps2"
    by (simp add: parseOutdatedPackages_def assms(2) col2 ps2_def)
  from col1 col2 have inv: "collected ?es1 pkgs1" "collected ?es2 pkgs2"
    by (simp_all add: collect_collected)
  have "summary ` set ps1 = summary ` snd ` set pkgs1"
    by (simp add: ps1 set_array_sort)
  also have "\<dots> = (\<lambda>k. (k, resolved_for ?es1 k, latest_for ?es1 k, contexts_for ?es1 k)) ` ids ?es1"
    using inv(1) by (rule summary_image)
  also have "\<dots> = (\<lambda>k. (k, resolved_for ?es2 k, latest_for ?es2 k, contexts_for ?es2 k)) ` ids ?es2"
    by (simp add: ids_set [OF same] resolved_for_set [OF same] latest_for_set [OF same]
          contexts_for_set [OF same])
  also have "\<dots> = summary ` snd ` set pkgs2"
    using inv(2) by (rule summary_image [symmetric])
  also have "\<dots> = summary ` set ps2"
    by (simp add: ps2_def set_array_sort)
  finally have "summary ` set ps1 = summary ` set ps2" .
  moreover have "sorted_wrt (by_id cmp) ps1" "sorted_wrt (by_id cmp) ps2"
    unfolding ps1 ps2_def by_id_def [abs_def]
    using assms(4) by (simp_all add: sorted_array_sort consistent_on_id)
  ultimately show ?thesis using r2 by blast
qed

theorem order_independent_witness:
  "sample_parse (extractJsonPayload (lit ''log {1} end'')) = Inr sample_document \<and>
   sample_parse (extractJsonPayload (lit ''{2}'')) = Inr sample_document_swapped \<and>
   mset (package_entries sample_document) = mset (package_entries sample_document_swapped) \<and>
   consistent code_unit_compare \<and>
   parseOutdatedPackages sample_parse code_unit_compare (lit ''log {1} end'') = Inr sample_candidates \<and>
   parseOutdatedPackages sample_parse code_unit_compare (lit ''{2}'') = Inr sample_candidates_swapped \<and>
   sample_candidates \<noteq> sample_candidates_swapped \<and>
   summary ` set sample_candidates = summary ` set sample_candidates_swapped \<and>
   sorted_wrt (by_id code_unit_compare) sample_candidates \<and>
   sorted_wrt (by_id code_unit_compare) sample_candidates_swapped"
proof -
  have differ: "sample_candidates \<noteq> sample_candidates_swapped"
    by code_simp
  from order_independent [OF sample_parsed sample_parsed_swapped sample_same_entries
      consistent_code_unit_compare sample_result]
  have "summary ` set sample_candidates = summary ` set sample_candidates_swapped \<and>
      sorted_wrt (by_id code_unit_compare) sample_candidates \<and>
      sorted_wrt (by_id code_unit_compare) sample_candidates_swapped"
    by (simp add: sample_result_swapped)
  with differ show ?thesis
    using sample_parsed sample_parsed_swapped sample_same_entries consistent_code_unit_compare
      sample_result sample_result_swapped
    by blast
qed

section \<open>Presentation: the description\<close>

lemma arrow_not_marker: "r @ lit '' -> '' @ l \<noteq> lit ''multiple versions''"
proof
  assume "r @ lit '' -> '' @ l = lit ''multiple versions''"
  then have "set (r @ lit '' -> '' @ l) = set (lit ''multiple versions'')" by simp
  moreover have "of_char CHR ''>'' \<in> set (r @ lit '' -> '' @ l)" by (simp add: lit_def)
  moreover have "(of_char CHR ''>'' :: jschar) \<notin> set (lit ''multiple versions'')"
    by (simp add: lit_def)
  ultimately show False by simp
qed

lemma description_cases:
  "(\<forall>r l. resolvedVersions pkg = [r] \<and> latestVersions pkg = [l] \<and> r \<noteq> [] \<and> l \<noteq> [] \<longrightarrow>
      description (toQuickPickItem pkg) = r @ lit '' -> '' @ l \<and>
      description (toQuickPickItem pkg) \<noteq> lit ''multiple versions'') \<and>
   (\<not> (\<exists>r l. resolvedVersions pkg = [r] \<and> latestVersions pkg = [l] \<and> r \<noteq> [] \<and> l \<noteq> []) \<longrightarrow>
      description (toQuickPickItem pkg) = lit ''multiple versions'')"
proof (intro conjI allI impI)
  fix r l
  assume one: "resolvedVersions pkg = [r] \<and> latestVersions pkg = [l] \<and> r \<noteq> [] \<and> l \<noteq> []"
  then show d: "description (toQuickPickItem pkg) = r @ lit '' -> '' @ l"
    by (simp add: toQuickPickItem_def Let_def)
  show "description (toQuickPickItem pkg) \<noteq> lit ''multiple versions''"
    unfolding d by (rule arrow_not_marker)
next
  assume none: "\<not> (\<exists>r l. resolvedVersions pkg = [r] \<and> latestVersions pkg = [l] \<and> r \<noteq> [] \<and> l \<noteq> [])"
  show "description (toQuickPickItem pkg) = lit ''multiple versions''"
  proof (cases "length (resolvedVersions pkg) = 1 \<and> length (latestVersions pkg) = 1")
    case True
    then obtain r l where rl: "resolvedVersions pkg = [r]" "latestVersions pkg = [l]"
      by (auto simp: length_Suc_conv)
    with none have "r = [] \<or> l = []" by blast
    with rl show ?thesis by (auto simp: toQuickPickItem_def Let_def)
  next
    case False
    then show ?thesis by (auto simp: toQuickPickItem_def Let_def)
  qed
qed

text \<open>
  The test \<open>resolved && latest\<close> is one of truthiness, so a candidate whose only
  resolved version is the empty string would be described as \<open>multiple versions\<close>.
  Normalization returns no such candidate.
\<close>

lemma description_of_empty_version:
  "length (resolvedVersions empty_version_candidate) = 1 \<and>
   length (latestVersions empty_version_candidate) = 1 \<and>
   description (toQuickPickItem empty_version_candidate) = lit ''multiple versions''"
  by code_simp

lemma empty_version_never_produced:
  "parseOutdatedPackages parse cmp text = Inr ps \<Longrightarrow> empty_version_candidate \<notin> set ps"
proof
  assume "parseOutdatedPackages parse cmp text = Inr ps" and "empty_version_candidate \<in> set ps"
  then have "[] \<notin> set (resolvedVersions empty_version_candidate)"
    using produced_candidate by blast
  then show False by (simp add: empty_version_candidate_def)
qed

text \<open>
  Claim C1. For every candidate that normalization returns, and these are the candidates
  the presenter is applied to, the description is \<open><only-resolved> -> <only-latest>\<close>
  when the resolved set and the latest set have exactly one element each, and
  \<open>multiple versions\<close> in every other case; the two renderings never coincide.
\<close>

theorem description_policy:
  assumes "parseOutdatedPackages parse cmp text = Inr ps" and "c \<in> set ps"
  shows "(\<forall>r l. resolvedVersions c = [r] \<and> latestVersions c = [l] \<longrightarrow>
            description (toQuickPickItem c) = r @ lit '' -> '' @ l \<and>
            description (toQuickPickItem c) \<noteq> lit ''multiple versions'') \<and>
         (\<not> (length (resolvedVersions c) = 1 \<and> length (latestVersions c) = 1) \<longrightarrow>
            description (toQuickPickItem c) = lit ''multiple versions'')"
proof -
  have delta: "description (toQuickPickItem c) = r @ lit '' -> '' @ l \<and>
      description (toQuickPickItem c) \<noteq> lit ''multiple versions''"
    if one: "resolvedVersions c = [r] \<and> latestVersions c = [l]" for r l
  proof -
    from one produced_candidate [OF assms] have "r \<noteq> []" "l \<noteq> []" by auto
    with one description_cases [of c] show ?thesis by blast
  qed
  have marker: "description (toQuickPickItem c) = lit ''multiple versions''"
    if "\<not> (length (resolvedVersions c) = 1 \<and> length (latestVersions c) = 1)"
  proof -
    from that
    have "\<not> (\<exists>r l. resolvedVersions c = [r] \<and> latestVersions c = [l] \<and> r \<noteq> [] \<and> l \<noteq> [])"
      by auto
    with description_cases [of c] show ?thesis by blast
  qed
  from delta marker show ?thesis by blast
qed

theorem description_policy_witness:
  "parseOutdatedPackages sample_parse code_unit_compare (lit ''log {1} end'') = Inr sample_candidates \<and>
   sample_candidates ! 1 \<in> set sample_candidates \<and>
   resolvedVersions (sample_candidates ! 1) = [lit ''3.0.0''] \<and>
   latestVersions (sample_candidates ! 1) = [lit ''3.1.1''] \<and>
   description (toQuickPickItem (sample_candidates ! 1)) = lit ''3.0.0 -> 3.1.1'' \<and>
   sample_candidates ! 0 \<in> set sample_candidates \<and>
   length (resolvedVersions (sample_candidates ! 0)) = 2 \<and>
   description (toQuickPickItem (sample_candidates ! 0)) = lit ''multiple versions''"
proof -
  have m: "sample_candidates ! 1 \<in> set sample_candidates"
    "sample_candidates ! 0 \<in> set sample_candidates"
    by (simp_all add: sample_candidates_def)
  have b: "resolvedVersions (sample_candidates ! 1) = [lit ''3.0.0'']"
    "latestVersions (sample_candidates ! 1) = [lit ''3.1.1'']"
    "length (resolvedVersions (sample_candidates ! 0)) = 2"
    by code_simp+
  from description_policy [OF sample_result m(1)] b
  have "description (toQuickPickItem (sample_candidates ! 1)) = lit ''3.0.0'' @ lit '' -> '' @ lit ''3.1.1''"
    by blast
  then have c: "description (toQuickPickItem (sample_candidates ! 1)) = lit ''3.0.0 -> 3.1.1''"
    by (simp add: lit_def)
  from description_policy [OF sample_result m(2)] b
  have d: "description (toQuickPickItem (sample_candidates ! 0)) = lit ''multiple versions''"
    by simp
  from sample_result m b c d show ?thesis by blast
qed

section \<open>Orchestration: the trace of a run\<close>

lemma no_json_differs:
  "lit ''Failed to parse outdated package list: '' @ m \<noteq> no_json_message"
  "lit ''Failed to install dotnet-outdated-tool. See output for details.'' \<noteq> no_json_message"
  "lit ''dotnet outdated --upgrade failed. See output for details.'' \<noteq> no_json_message"
  by (simp_all add: no_json_message_def lit_def)

lemma on_data_events: "e \<in> set (on_data echoOut echoErr c) \<Longrightarrow> \<exists>t. e = Append t"
  by (cases c) (auto split: if_splits)

lemma on_end_events: "e \<in> set (on_end fin) \<Longrightarrow> \<exists>t. e = AppendLine t"
  by (cases fin) auto

lemma runCommand_events:
  assumes "e \<in> set (fst (runCommand env cwd command args))"
  shows "(\<exists>t. e = AppendLine t) \<or> (\<exists>t. e = Append t) \<or> e = Spawn cwd command args"
  using assms unfolding runCommand_def Let_def
  by (auto dest: on_data_events on_end_events)

lemma runCommandCapture_events:
  assumes "e \<in> set (fst (runCommandCapture env cwd command args options))"
  shows "(\<exists>t. e = AppendLine t) \<or> (\<exists>t. e = Append t) \<or> e = Spawn cwd command args"
  using assms unfolding runCommandCapture_def Let_def
  by (auto dest: on_data_events on_end_events)

lemma runCommand_quiet:
  "ShowErrorMessage m \<notin> set (fst (runCommand env cwd command args))"
  "ShowQuickPick items \<notin> set (fst (runCommand env cwd command args))"
  using runCommand_events [of _ env cwd command args] by blast+

lemma ensure_quiet:
  "ShowErrorMessage m \<notin> set (fst (ensureDotnetOutdated env cwd))"
  "ShowQuickPick items \<notin> set (fst (ensureDotnetOutdated env cwd))"
  unfolding ensureDotnetOutdated_def Let_def case_prod_beta
  by (simp_all add: runCommand_quiet)

lemma selected_errors:
  "ShowErrorMessage m \<in> set (activate_selected env cwd sel) \<Longrightarrow>
     m = lit ''Failed to install dotnet-outdated-tool. See output for details.'' \<or>
     m = lit ''dotnet outdated --upgrade failed. See output for details.''"
  unfolding activate_selected_def Let_def case_prod_beta
  by (auto simp: runCommand_quiet ensure_quiet split: option.splits if_splits)

lemma selected_no_pick: "ShowQuickPick items \<notin> set (activate_selected env cwd sel)"
  unfolding activate_selected_def Let_def case_prod_beta
  by (auto simp: runCommand_quiet ensure_quiet split: option.splits if_splits)

lemma selected_nothing:
  "sel = None \<or> sel = Some [] \<Longrightarrow>
     activate_selected env cwd sel = [ShowInformationMessage nothing_selected_message]"
  by (auto simp: activate_selected_def nothing_selected_message_def)

lemma payload_errors:
  "ShowErrorMessage m \<in> set (activate_payload env cwd p) \<Longrightarrow>
     (\<exists>err. m = lit ''Failed to parse outdated package list: '' @ message err) \<or>
     m = lit ''Failed to install dotnet-outdated-tool. See output for details.'' \<or>
     m = lit ''dotnet outdated --upgrade failed. See output for details.''"
  unfolding activate_payload_def Let_def
  by (auto split: sum.splits if_splits dest: selected_errors)

lemma payload_no_json: "ShowErrorMessage no_json_message \<notin> set (activate_payload env cwd p)"
  using payload_errors [of no_json_message env cwd p] no_json_differs by metis

lemma activate_unfolded:
  "activate env =
     (case first_folder (workspaceFolders env) of
        None \<Rightarrow>
          [ShowErrorMessage (lit ''Open a workspace folder to run NuGet Package Upgrade.'')]
      | Some cwd \<Rightarrow>
          if snd (runCommand env cwd (lit ''dotnet'') list_args) \<noteq> 0
          then [CreateOutputChannel (lit ''NuGet Package Upgrade''), ShowOutput,
                ShowInformationMessage (lit ''Running NuGet package checks...'')]
               @ fst (runCommand env cwd (lit ''dotnet'') list_args)
               @ [ShowErrorMessage (lit ''dotnet list package failed. See output for details.'')]
          else
            let result = snd (runCommandCapture env cwd (lit ''dotnet'') outdated_args silent)
            in if code result \<noteq> 0
               then preamble env cwd @ [ShowErrorMessage
                      (lit ''dotnet list package --outdated --format json failed. Update your .NET SDK or see output for details.'')]
               else if trim (stdout result) = [] \<and> trim (stderr result) = []
               then preamble env cwd @ [ShowErrorMessage no_json_message]
               else preamble env cwd @ activate_payload env cwd
                      (if trim (stdout result) \<noteq> [] then stdout result else stderr result))"
  unfolding activate_def preamble_def list_args_def outdated_args_def silent_def
    no_json_message_def Let_def case_prod_beta
  by (simp split: option.splits)

lemma activate_reaches_payload:
  assumes "first_folder (workspaceFolders env) = Some cwd"
    and "snd (runCommand env cwd (lit ''dotnet'') list_args) = 0"
    and "snd (runCommandCapture env cwd (lit ''dotnet'') outdated_args silent) = result"
    and "code result = 0"
  shows "activate env = preamble env cwd @
           (if trim (stdout result) = [] \<and> trim (stderr result) = []
            then [ShowErrorMessage no_json_message]
            else activate_payload env cwd
                   (if trim (stdout result) \<noteq> [] then stdout result else stderr result))"
  using assms unfolding activate_unfolded Let_def by simp

lemma preamble_events:
  assumes "e \<in> set (preamble env cwd)"
  shows "(\<forall>m. e \<noteq> ShowErrorMessage m) \<and> (\<forall>items. e \<noteq> ShowQuickPick items) \<and> \<not> later_call e"
proof -
  have l: "\<not> later_call (Spawn cwd (lit ''dotnet'') list_args)"
    "\<not> later_call (Spawn cwd (lit ''dotnet'') outdated_args)"
    by (simp_all add: list_args_def outdated_args_def lit_def)
  from assms consider "e = CreateOutputChannel (lit ''NuGet Package Upgrade'')" | "e = ShowOutput"
    | "e = ShowInformationMessage (lit ''Running NuGet package checks...'')"
    | "e \<in> set (fst (runCommand env cwd (lit ''dotnet'') list_args))"
    | "e \<in> set (fst (runCommandCapture env cwd (lit ''dotnet'') outdated_args silent))"
    unfolding preamble_def by auto
  then show ?thesis
  proof cases
    case 4
    from runCommand_events [OF this] l show ?thesis by auto
  next
    case 5
    from runCommandCapture_events [OF this] l show ?thesis by auto
  qed simp_all
qed

lemma preamble_no_json: "ShowErrorMessage m \<notin> set (preamble env cwd)"
  using preamble_events [of "ShowErrorMessage m" env cwd] by blast

text \<open>
  Claim C4. When the listing call and the outdated-check call succeed, the payload given
  to \<open>parseOutdatedPackages\<close> is the captured standard output if it is not blank and
  the captured standard error otherwise, and the run reports that no JSON output was
  received exactly when both are blank.
\<close>

theorem payload_selection:
  assumes "first_folder (workspaceFolders env) = Some cwd"
    and "snd (runCommand env cwd (lit ''dotnet'') list_args) = 0"
    and "snd (runCommandCapture env cwd (lit ''dotnet'') outdated_args silent) = result"
    and "code result = 0"
  shows "activate env = preamble env cwd @
           (if trim (stdout result) = [] \<and> trim (stderr result) = []
            then [ShowErrorMessage no_json_message]
            else activate_payload env cwd
                   (if trim (stdout result) \<noteq> [] then stdout result else stderr result)) \<and>
         (ShowErrorMessage no_json_message \<in> set (activate env) \<longleftrightarrow>
            trim (stdout result) = [] \<and> trim (stderr result) = [])"
proof -
  note run = activate_reaches_payload [OF assms]
  have "ShowErrorMessage no_json_message \<in> set (activate env) \<longleftrightarrow>
          trim (stdout result) = [] \<and> trim (stderr result) = []"
    unfolding run by (simp add: preamble_no_json payload_no_json)
  with run show ?thesis by blast
qed

theorem payload_selection_witness:
  "first_folder (workspaceFolders (sample_platform (lit '' '') (lit ''{1}''))) = Some (lit ''/work'') \<and>
   snd (runCommand (sample_platform (lit '' '') (lit ''{1}'')) (lit ''/work'') (lit ''dotnet'') list_args) = 0 \<and>
   snd (runCommandCapture (sample_platform (lit '' '') (lit ''{1}'')) (lit ''/work'') (lit ''dotnet'')
          outdated_args silent)
     = \<lparr>code = 0, stdout = lit '' '', stderr = lit ''{1}''\<rparr> \<and>
   activate (sample_platform (lit '' '') (lit ''{1}'')) =
     preamble (sample_platform (lit '' '') (lit ''{1}'')) (lit ''/work'') @
       activate_payload (sample_platform (lit '' '') (lit ''{1}'')) (lit ''/work'') (lit ''{1}'') \<and>
   ShowErrorMessage no_json_message \<notin> set (activate (sample_platform (lit '' '') (lit ''{1}'')))"
proof -
  let ?env = "sample_platform (lit '' '') (lit ''{1}'')"
  let ?res = "\<lparr>code = 0, stdout = lit '' '', stderr = lit ''{1}''\<rparr>"
  have a: "first_folder (workspaceFolders ?env) = Some (lit ''/work'')"
    by code_simp
  have b: "snd (runCommand ?env (lit ''/work'') (lit ''dotnet'') list_args) = 0"
    by code_simp
  have c: "snd (runCommandCapture ?env (lit ''/work'') (lit ''dotnet'') outdated_args silent) = ?res"
    by code_simp
  have d: "code ?res = 0" by simp
  have e: "trim (stdout ?res) = []" "trim (stderr ?res) \<noteq> []"
    by code_simp+
  note sel = payload_selection [OF a b c d]
  from sel [THEN conjunct1] e
  have f: "activate ?env = preamble ?env (lit ''/work'') @ activate_payload ?env (lit ''/work'') (lit ''{1}'')"
    by simp
  from sel [THEN conjunct2] e
  have g: "ShowErrorMessage no_json_message \<notin> set (activate ?env)"
    by simp
  from a b c f g show ?thesis by blast
qed

lemma activate_cases:
  "(\<exists>es. activate env = es @ [ShowErrorMessage (lit ''dotnet list package failed. See output for details.'')]
      \<and> (\<forall>items. ShowQuickPick items \<notin> set es)) \<or>
   (\<exists>m. activate env = [ShowErrorMessage m]) \<or>
   (\<exists>cwd m. activate env = preamble env cwd @ [ShowErrorMessage m]) \<or>
   (\<exists>cwd p. activate env = preamble env cwd @ activate_payload env cwd p)"
proof (cases "first_folder (workspaceFolders env)")
  case None
  then show ?thesis unfolding activate_unfolded by simp
next
  case (Some cwd)
  show ?thesis
  proof (cases "snd (runCommand env cwd (lit ''dotnet'') list_args) = 0")
    case True
    with Some show ?thesis unfolding activate_unfolded Let_def
      by (auto split: if_splits)
  next
    case False
    let ?es = "[CreateOutputChannel (lit ''NuGet Package Upgrade''), ShowOutput,
                ShowInformationMessage (lit ''Running NuGet package checks...'')]
               @ fst (runCommand env cwd (lit ''dotnet'') list_args)"
    have "\<forall>items. ShowQuickPick items \<notin> set ?es"
      using runCommand_events [of _ env cwd "lit ''dotnet''" list_args] by auto
    moreover from Some False have "activate env = ?es @
        [ShowErrorMessage (lit ''dotnet list package failed. See output for details.'')]"
      unfolding activate_unfolded by simp
    ultimately show ?thesis by blast
  qed
qed

lemma payload_cases:
  "(\<forall>items. ShowQuickPick items \<notin> set (activate_payload env cwd p)) \<or>
   (\<exists>items. items \<noteq> [] \<and>
      activate_payload env cwd p =
        ShowQuickPick items # activate_selected env cwd (showQuickPick env items))"
  unfolding activate_payload_def Let_def
  by (auto split: sum.splits)

lemma preamble_no_pick: "ShowQuickPick items \<notin> set (preamble env cwd)"
  using preamble_events [of "ShowQuickPick items" env cwd] by blast

lemma sample_run:
  "activate (sample_platform (lit ''log {1} end'') []) =
     [CreateOutputChannel (lit ''NuGet Package Upgrade''), ShowOutput,
      ShowInformationMessage (lit ''Running NuGet package checks...''),
      AppendLine (lit ''> dotnet list package''),
      Spawn (lit ''/work'') (lit ''dotnet'') list_args,
      Append (lit ''Project App''),
      AppendLine (lit ''> dotnet list package --outdated --format json''),
      Spawn (lit ''/work'') (lit ''dotnet'') outdated_args,
      ShowQuickPick (map toQuickPickItem sample_candidates),
      ShowInformationMessage nothing_selected_message]"
  by code_simp

text \<open>
  Claim C7. When the picker is shown and its answer is \<open>undefined\<close> or the empty
  selection, the run ends with the notice that no packages were selected, and it spawns
  neither the probe, nor the installation, nor the upgrade: the trace is the two listing
  calls, the picker and the notice.
\<close>

theorem nothing_selected:
  assumes "ShowQuickPick items \<in> set (activate env)"
    and "showQuickPick env items = None \<or> showQuickPick env items = Some []"
  shows "items \<noteq> [] \<and>
         (\<exists>cwd. activate env = preamble env cwd @
            [ShowQuickPick items, ShowInformationMessage nothing_selected_message]) \<and>
         (\<forall>e \<in> set (activate env). \<not> later_call e)"
proof -
  from assms(1) activate_cases [of env] obtain cwd p
    where run: "activate env = preamble env cwd @ activate_payload env cwd p"
    by (auto simp: preamble_no_pick)
  with assms(1) have inp: "ShowQuickPick items \<in> set (activate_payload env cwd p)"
    by (simp add: preamble_no_pick)
  with payload_cases [of env cwd p] obtain items' where ne: "items' \<noteq> []"
    and pay: "activate_payload env cwd p =
        ShowQuickPick items' # activate_selected env cwd (showQuickPick env items')"
    by blast
  from inp have same: "items' = items"
    unfolding pay by (simp add: selected_no_pick)
  from assms(2) have "activate_selected env cwd (showQuickPick env items) =
      [ShowInformationMessage nothing_selected_message]"
    by (rule selected_nothing)
  with run pay same have trace: "activate env = preamble env cwd @
      [ShowQuickPick items, ShowInformationMessage nothing_selected_message]"
    by simp
  have "\<forall>e \<in> set (activate env). \<not> later_call e"
    unfolding trace using preamble_events [of _ env cwd] by auto
  with ne same trace show ?thesis by blast
qed

theorem nothing_selected_witness:
  "ShowQuickPick (map toQuickPickItem sample_candidates)
      \<in> set (activate (sample_platform (lit ''log {1} end'') [])) \<and>
   showQuickPick (sample_platform (lit ''log {1} end'') []) (map toQuickPickItem sample_candidates) = None \<and>
   map toQuickPickItem sample_candidates \<noteq> [] \<and>
   (\<exists>cwd. activate (sample_platform (lit ''log {1} end'') []) =
      preamble (sample_platform (lit ''log {1} end'') []) cwd @
      [ShowQuickPick (map toQuickPickItem sample_candidates),
       ShowInformationMessage nothing_selected_message]) \<and>
   filter later_call (activate (sample_platform (lit ''log {1} end'') [])) = []"
proof -
  have a: "ShowQuickPick (map toQuickPickItem sample_candidates)
      \<in> set (activate (sample_platform (lit ''log {1} end'') []))"
    by (simp add: sample_run)
  have b: "showQuickPick (sample_platform (lit ''log {1} end'') [])
      (map toQuickPickItem sample_candidates) = None"
    by (simp add: sample_platform_def)
  note run = nothing_selected [OF a disjI1 [OF b]]
  from run have "\<forall>e \<in> set (activate (sample_platform (lit ''log {1} end'') [])). \<not> later_call e"
    by blast
  then have "filter later_call (activate (sample_platform (lit ''log {1} end'') [])) = []"
    by (simp only: filter_empty_conv)
  with run a b show ?thesis by blast
qed

text \<open>
  A command that cannot start leaves a line in the output channel and counts as exit
  code 1.
\<close>

lemma failed_start:
  "spawn env cwd command args = \<lparr>chunks = [], ending = StartError m\<rparr> \<Longrightarrow>
     runCommand env cwd command args =
       ([AppendLine (command_line command args), Spawn cwd command args,
         AppendLine (lit ''Command failed to start: '' @ m)], 1)"
  by (simp add: runCommand_def)

text \<open>
  The items of the picker are the presentation of a sequence that normalization
  returned: the presenter is applied to no other candidate.
\<close>

lemma shown_items_are_produced:
  assumes "ShowQuickPick items \<in> set (activate env)"
  shows "\<exists>text ps. parseOutdatedPackages (JSON_parse env) (localeCompare env) text = Inr ps \<and>
           items = map toQuickPickItem ps"
proof -
  from assms activate_cases [of env] obtain cwd p
    where run: "activate env = preamble env cwd @ activate_payload env cwd p"
    by (auto simp: preamble_no_pick)
  with assms have "ShowQuickPick items \<in> set (activate_payload env cwd p)"
    by (simp add: preamble_no_pick)
  then show ?thesis
    unfolding activate_payload_def Let_def
    by (auto split: sum.splits if_splits simp: selected_no_pick)
qed

end
